theory Spec2Isabelle
  imports Main "HOL-Library.AList" "HOL-Library.Sublist"
begin

section \<open>FlowCode planner: text, JSON and the plan extractor\<close>

text \<open>
  The development embeds the core of \<^verbatim>\<open>src/cli/flowcode.js\<close>: the scanner
  \<^verbatim>\<open>extractPlanJson\<close>, the plan versioner (\<^verbatim>\<open>getNextPlanVersion\<close>,
  \<^verbatim>\<open>writePlanFiles\<close>), the session store (\<^verbatim>\<open>getSession\<close>,
  \<^verbatim>\<open>saveSession\<close>, \<^verbatim>\<open>addMessage\<close>, \<^verbatim>\<open>createSession\<close>) and the part of
  \<^verbatim>\<open>main\<close> that handles one chat turn.

  A JavaScript string is modelled as a \<^typ>\<open>string\<close>: one \<^typ>\<open>char\<close> per UTF-16 code
  unit, for text whose code units lie below \<^verbatim>\<open>0x100\<close>. Numbers that the code reads
  with \<^verbatim>\<open>parseInt\<close> are natural numbers (the doubles of JavaScript are exact up to
  \<^verbatim>\<open>2^53\<close>).
\<close>

subsection \<open>String primitives of the language\<close>

definition NL :: char where
  "NL = CHR 0x0A"

text \<open>\<^verbatim>\<open>String.prototype.trim\<close> strips white space and line terminators; below
  \<^verbatim>\<open>0x100\<close> these are TAB, LF, VT, FF, CR, SP and NBSP.\<close>

definition isWhiteSpace :: "char \<Rightarrow> bool" where
  "isWhiteSpace c \<longleftrightarrow>
     c \<in> set [CHR 0x09, CHR 0x0A, CHR 0x0B, CHR 0x0C, CHR 0x0D, CHR 0x20, CHR 0xA0]"

definition trim :: "string \<Rightarrow> string" where
  "trim s = rev (dropWhile isWhiteSpace (rev (dropWhile isWhiteSpace s)))"

text \<open>\<^verbatim>\<open>s.startsWith(p)\<close>.\<close>

definition startsWith :: "string \<Rightarrow> string \<Rightarrow> bool" where
  "startsWith s p \<longleftrightarrow> take (length p) s = p"

text \<open>\<^verbatim>\<open>s.split('\n')\<close>: the pieces between line feeds; never the empty list.\<close>

fun split_lines :: "string \<Rightarrow> string list" where
  "split_lines [] = [[]]"
| "split_lines (c # cs) =
     (if c = NL then [] # split_lines cs
      else (case split_lines cs of
              [] \<Rightarrow> [[c]]
            | l # ls \<Rightarrow> (c # l) # ls))"

text \<open>\<^verbatim>\<open>(line.match(/\{/g) || []).length\<close>: the number of occurrences of one
  character.\<close>

definition occurrences :: "char \<Rightarrow> string \<Rightarrow> int" where
  "occurrences c s = int (length (filter (\<lambda>x. x = c) s))"

text \<open>\<^verbatim>\<open>String.prototype.includes\<close>: \<open>p\<close> occurs in \<open>s\<close> as a contiguous piece.\<close>

fun str_includes :: "string \<Rightarrow> string \<Rightarrow> bool" where
  "str_includes [] p = (p = [])"
| "str_includes (c # cs) p = (startsWith (c # cs) p \<or> str_includes cs p)"

subsection \<open>JSON values and \<^verbatim>\<open>JSON.parse\<close>\<close>

text \<open>
  A number keeps its lexeme. An object keeps its members in the order of the text;
  a later member with the same key overrides an earlier one, see \<open>getProp\<close>.
\<close>

datatype json =
    JNull
  | JBool bool
  | JNumber string
  | JString string
  | JArray "json list"
  | JObject "(string \<times> json) list"

datatype token =
    TLBrace | TRBrace | TLBrack | TRBrack | TColon | TComma
  | TStr string | TWord string

definition isDigit :: "char \<Rightarrow> bool" where
  "isDigit c \<longleftrightarrow> c \<in> set ''0123456789''"

definition isHexDigit :: "char \<Rightarrow> bool" where
  "isHexDigit c \<longleftrightarrow> c \<in> set ''0123456789abcdefABCDEF''"

text \<open>The white space of JSON is SP, TAB, LF and CR only.\<close>

definition isJsonSpace :: "char \<Rightarrow> bool" where
  "isJsonSpace c \<longleftrightarrow> c \<in> set [CHR 0x20, CHR 0x09, CHR 0x0A, CHR 0x0D]"

text \<open>The characters of numbers and of the literals \<^verbatim>\<open>true\<close>, \<^verbatim>\<open>false\<close>,
  \<^verbatim>\<open>null\<close>; a maximal run of them is one word, checked when it ends.\<close>

definition isWordChar :: "char \<Rightarrow> bool" where
  "isWordChar c \<longleftrightarrow> c \<in> set ''0123456789+-.eEtrufalsn''"

text \<open>The number grammar:
  \<^verbatim>\<open>-?(0|[1-9][0-9]*)(\.[0-9]+)?([eE][+-]?[0-9]+)?\<close>.\<close>

definition validExponent :: "string \<Rightarrow> bool" where
  "validExponent r \<longleftrightarrow>
     (case r of
        [] \<Rightarrow> True
      | e # r1 \<Rightarrow>
          (e = CHR ''e'' \<or> e = CHR ''E'') \<and>
          (let r2 = (case r1 of
                       [] \<Rightarrow> []
                     | s # r3 \<Rightarrow> if s = CHR ''+'' \<or> s = CHR ''-'' then r3 else r1)
           in r2 \<noteq> [] \<and> list_all isDigit r2))"

definition validFraction :: "string \<Rightarrow> bool" where
  "validFraction r \<longleftrightarrow>
     (case r of
        [] \<Rightarrow> True
      | d # r1 \<Rightarrow>
          if d = CHR ''.'' then takeWhile isDigit r1 \<noteq> [] \<and> validExponent (dropWhile isDigit r1)
          else validExponent r)"

definition validNumber :: "string \<Rightarrow> bool" where
  "validNumber w \<longleftrightarrow>
     (let s = (case w of
                 [] \<Rightarrow> []
               | m # r \<Rightarrow> if m = CHR ''-'' then r else w);
          ds = takeWhile isDigit s
      in ds \<noteq> [] \<and> (ds = ''0'' \<or> hd ds \<noteq> CHR ''0'') \<and> validFraction (dropWhile isDigit s))"

definition hexDigitValue :: "char \<Rightarrow> nat" where
  "hexDigitValue c =
     (let n = of_char c in
      if isDigit c then n - 48
      else if n \<ge> 97 then n - 87
      else n - 55)"

definition hexValue :: "string \<Rightarrow> nat" where
  "hexValue hs = foldl (\<lambda>a c. 16 * a + hexDigitValue c) 0 hs"

datatype lexmode =
    Idle
  | InWord string
  | InStr string
  | InEsc string
  | InHex string string

definition unescape :: "char \<Rightarrow> char option" where
  "unescape c =
     (if c = CHR 0x22 then Some (CHR 0x22)
      else if c = CHR 0x5C then Some (CHR 0x5C)
      else if c = CHR ''/'' then Some (CHR ''/'')
      else if c = CHR ''b'' then Some (CHR 0x08)
      else if c = CHR ''f'' then Some (CHR 0x0C)
      else if c = CHR ''n'' then Some (CHR 0x0A)
      else if c = CHR ''r'' then Some (CHR 0x0D)
      else if c = CHR ''t'' then Some (CHR 0x09)
      else None)"

text \<open>
  The lexer reads one character at a time. A string may not hold a raw control
  character; \<^verbatim>\<open>\uXXXX\<close> denotes one code unit, and a code unit from
  \<^verbatim>\<open>0x100\<close> on is outside the characters of this model (the answer is \<open>None\<close>
  there).
\<close>

definition idleStep :: "char \<Rightarrow> (token list \<times> lexmode) option" where
  "idleStep c =
     (if isJsonSpace c then Some ([], Idle)
      else if c = CHR ''{'' then Some ([TLBrace], Idle)
      else if c = CHR ''}'' then Some ([TRBrace], Idle)
      else if c = CHR ''['' then Some ([TLBrack], Idle)
      else if c = CHR '']'' then Some ([TRBrack], Idle)
      else if c = CHR '':'' then Some ([TColon], Idle)
      else if c = CHR '','' then Some ([TComma], Idle)
      else if c = CHR 0x22 then Some ([], InStr [])
      else if isWordChar c then Some ([], InWord [c])
      else None)"

fun lexStep :: "lexmode \<Rightarrow> char \<Rightarrow> (token list \<times> lexmode) option" where
  "lexStep Idle c = idleStep c"
| "lexStep (InWord w) c =
     (if isWordChar c then Some ([], InWord (w @ [c]))
      else (case idleStep c of
              None \<Rightarrow> None
            | Some (ts, m) \<Rightarrow> Some (TWord w # ts, m)))"
| "lexStep (InStr a) c =
     (if c = CHR 0x22 then Some ([TStr a], Idle)
      else if c = CHR 0x5C then Some ([], InEsc a)
      else if (of_char c :: nat) < 32 then None
      else Some ([], InStr (a @ [c])))"
| "lexStep (InEsc a) c =
     (if c = CHR ''u'' then Some ([], InHex a [])
      else (case unescape c of
              None \<Rightarrow> None
            | Some d \<Rightarrow> Some ([], InStr (a @ [d]))))"
| "lexStep (InHex a hs) c =
     (if \<not> isHexDigit c then None
      else if length hs < 3 then Some ([], InHex a (hs @ [c]))
      else if hexValue (hs @ [c]) < 256 then Some ([], InStr (a @ [char_of (hexValue (hs @ [c]))]))
      else None)"

fun lexEnd :: "lexmode \<Rightarrow> token list option" where
  "lexEnd Idle = Some []"
| "lexEnd (InWord w) = Some [TWord w]"
| "lexEnd _ = None"

fun lex :: "lexmode \<Rightarrow> string \<Rightarrow> token list option" where
  "lex m [] = lexEnd m"
| "lex m (c # cs) =
     (case lexStep m c of
        None \<Rightarrow> None
      | Some (ts, m') \<Rightarrow> map_option (\<lambda>r. ts @ r) (lex m' cs))"

text \<open>
  The parser is a stack machine over the tokens: a frame is an array or object under
  construction together with what may come next in it.
\<close>

datatype frame =
    AStart "json list"
  | AVal "json list"
  | ANext "json list"
  | OStart "(string \<times> json) list"
  | OKey "(string \<times> json) list"
  | OColon "(string \<times> json) list" string
  | OVal "(string \<times> json) list" string
  | ONext "(string \<times> json) list"

datatype pstate = Run "frame list" | Done json

fun deliver :: "json \<Rightarrow> frame list \<Rightarrow> pstate option" where
  "deliver v [] = Some (Done v)"
| "deliver v (AStart acc # st) = Some (Run (ANext (acc @ [v]) # st))"
| "deliver v (AVal acc # st) = Some (Run (ANext (acc @ [v]) # st))"
| "deliver v (OVal kvs k # st) = Some (Run (ONext (kvs @ [(k, v)]) # st))"
| "deliver v (_ # st) = None"

fun expectsValue :: "frame list \<Rightarrow> bool" where
  "expectsValue [] = True"
| "expectsValue (AStart _ # _) = True"
| "expectsValue (AVal _ # _) = True"
| "expectsValue (OVal _ _ # _) = True"
| "expectsValue _ = False"

definition wordValue :: "string \<Rightarrow> json option" where
  "wordValue w =
     (if w = ''true'' then Some (JBool True)
      else if w = ''false'' then Some (JBool False)
      else if w = ''null'' then Some JNull
      else if validNumber w then Some (JNumber w)
      else None)"

fun pstep :: "token \<Rightarrow> frame list \<Rightarrow> pstate option" where
  "pstep (TWord w) st = (case wordValue w of None \<Rightarrow> None | Some v \<Rightarrow> deliver v st)"
| "pstep (TStr s) (OStart kvs # st) = Some (Run (OColon kvs s # st))"
| "pstep (TStr s) (OKey kvs # st) = Some (Run (OColon kvs s # st))"
| "pstep (TStr s) st = deliver (JString s) st"
| "pstep TLBrack st = (if expectsValue st then Some (Run (AStart [] # st)) else None)"
| "pstep TLBrace st = (if expectsValue st then Some (Run (OStart [] # st)) else None)"
| "pstep TRBrack (AStart acc # st) = deliver (JArray acc) st"
| "pstep TRBrack (ANext acc # st) = deliver (JArray acc) st"
| "pstep TRBrack _ = None"
| "pstep TRBrace (OStart kvs # st) = deliver (JObject kvs) st"
| "pstep TRBrace (ONext kvs # st) = deliver (JObject kvs) st"
| "pstep TRBrace _ = None"
| "pstep TComma (ANext acc # st) = Some (Run (AVal acc # st))"
| "pstep TComma (ONext kvs # st) = Some (Run (OKey kvs # st))"
| "pstep TComma _ = None"
| "pstep TColon (OColon kvs k # st) = Some (Run (OVal kvs k # st))"
| "pstep TColon _ = None"

fun parse_tokens :: "pstate \<Rightarrow> token list \<Rightarrow> json option" where
  "parse_tokens (Done v) [] = Some v"
| "parse_tokens (Run st) [] = None"
| "parse_tokens (Done v) (t # ts) = None"
| "parse_tokens (Run st) (t # ts) =
     (case pstep t st of
        None \<Rightarrow> None
      | Some s \<Rightarrow> parse_tokens s ts)"

text \<open>\<^verbatim>\<open>JSON.parse(text)\<close>; \<open>None\<close> is the \<^verbatim>\<open>SyntaxError\<close>.\<close>

definition JSON_parse :: "string \<Rightarrow> json option" where
  "JSON_parse s =
     (case lex Idle s of
        None \<Rightarrow> None
      | Some ts \<Rightarrow> parse_tokens (Run []) ts)"

text \<open>Property access \<^verbatim>\<open>v[k]\<close> for the keys the program uses (\<^verbatim>\<open>files\<close> and
  the section names): only an object has them; \<open>None\<close> is \<^verbatim>\<open>undefined\<close>.\<close>

fun getProp :: "json \<Rightarrow> string \<Rightarrow> json option" where
  "getProp (JObject kvs) k = map_of (rev kvs) k"
| "getProp _ k = None"

text \<open>Truthiness of a parsed value: \<^verbatim>\<open>null\<close>, \<^verbatim>\<open>false\<close>, zero and the empty
  string are falsy. A number is zero when its mantissa has no digit but \<^verbatim>\<open>0\<close>.\<close>

fun truthy :: "json \<Rightarrow> bool" where
  "truthy JNull = False"
| "truthy (JBool b) = b"
| "truthy (JNumber w) =
     (\<exists>c \<in> set (takeWhile (\<lambda>c. c \<noteq> CHR ''e'' \<and> c \<noteq> CHR ''E'') w). isDigit c \<and> c \<noteq> CHR ''0'')"
| "truthy (JString s) = (s \<noteq> [])"
| "truthy (JArray _) = True"
| "truthy (JObject _) = True"

fun truthyOpt :: "json option \<Rightarrow> bool" where
  "truthyOpt None = False"
| "truthyOpt (Some v) = truthy v"

subsection \<open>\<^verbatim>\<open>extractPlanJson\<close>\<close>

record scan_state =
  jsonContent :: string
  inJsonBlock :: bool
  braceCount :: int
  started :: bool

definition scan_init :: scan_state where
  "scan_init = \<lparr>jsonContent = [], inJsonBlock = False, braceCount = 0, started = False\<rparr>"

definition opensBlock :: "string \<Rightarrow> bool" where
  "opensBlock line \<longleftrightarrow>
     startsWith (trim line) ''```md'' \<or> startsWith (trim line) ''```json''"

text \<open>The \<^verbatim>\<open>for\<close> loop over the lines; \<^verbatim>\<open>break\<close> returns the state as it is.\<close>

fun scan :: "scan_state \<Rightarrow> string list \<Rightarrow> scan_state" where
  "scan st [] = st"
| "scan st (line # rest) =
     (if \<not> inJsonBlock st \<and> opensBlock line then
        scan (st\<lparr>inJsonBlock := True, started := False, braceCount := 0, jsonContent := []\<rparr>) rest
      else if inJsonBlock st then
        (if trim line = ''```'' \<and> started st \<and> braceCount st = 0 then st
         else if started st \<or> startsWith (trim line) ''{'' then
           scan (st\<lparr>started := True,
                    jsonContent := jsonContent st @ line @ [NL],
                    braceCount := braceCount st + occurrences (CHR ''{'') line
                                    - occurrences (CHR ''}'') line\<rparr>) rest
         else scan st rest)
      else scan st rest)"

text \<open>
  \<^verbatim>\<open>response.match(/\{[\s\S]*"files"[\s\S]*\}/)\<close>. The match, when there is one,
  begins at the first \<^verbatim>\<open>{\<close> of the text and, both stars being greedy, ends at the
  last \<^verbatim>\<open>}\<close>; there is one when \<^verbatim>\<open>"files"\<close> occurs between the two.
\<close>

definition filesKey :: string where
  "filesKey = [CHR 0x22] @ ''files'' @ [CHR 0x22]"

definition jsonMatch :: "string \<Rightarrow> string option" where
  "jsonMatch response =
     (let span = rev (dropWhile (\<lambda>c. c \<noteq> CHR ''}'')
                   (rev (dropWhile (\<lambda>c. c \<noteq> CHR ''{'') response)))
      in if span \<noteq> [] \<and> str_includes (butlast (tl span)) filesKey then Some span else None)"

definition extractPlanJson :: "string \<Rightarrow> json option" where
  "extractPlanJson response =
     (let st = scan scan_init (split_lines response) in
      if trim (jsonContent st) \<noteq> [] then JSON_parse (jsonContent st)
      else (case jsonMatch response of
              None \<Rightarrow> None
            | Some m \<Rightarrow> JSON_parse m))"

section \<open>The file system and the plan versioner\<close>

subsection \<open>File system\<close>

text \<open>
  A path is the list of its components, from the root. The file system is a table
  from paths to entries; the root is always a directory. The calls of
  \<^verbatim>\<open>fs\<close> that the program makes are modelled with their error codes; a call that
  throws leaves the table as it was. A file holds the string that was written to it.
\<close>

type_synonym path = "string list"

datatype entry = File string | Dir

type_synonym filesystem = "(path \<times> entry) list"

datatype error = ENOENT | ENOTDIR | EISDIR | EEXIST | TypeError | SyntaxError | ChatError

definition stat :: "filesystem \<Rightarrow> path \<Rightarrow> entry option" where
  "stat fs p = (if p = [] then Some Dir else map_of fs p)"

text \<open>Every entry lies in a directory.\<close>

definition wf_fs :: "filesystem \<Rightarrow> bool" where
  "wf_fs fs \<longleftrightarrow> (\<forall>(p, e) \<in> set fs. p \<noteq> [] \<longrightarrow> stat fs (butlast p) = Some Dir)"

definition existsSync :: "filesystem \<Rightarrow> path \<Rightarrow> bool" where
  "existsSync fs p \<longleftrightarrow> stat fs p \<noteq> None"

text \<open>\<^verbatim>\<open>fs.readdirSync(p)\<close>: the names of all entries of the directory, files and
  directories alike.\<close>

definition readdirSync :: "filesystem \<Rightarrow> path \<Rightarrow> error + string list" where
  "readdirSync fs p =
     (case stat fs p of
        None \<Rightarrow> Inl ENOENT
      | Some (File c) \<Rightarrow> Inl ENOTDIR
      | Some Dir \<Rightarrow> Inr (map (\<lambda>(q, e). last q) (filter (\<lambda>(q, e). q \<noteq> [] \<and> butlast q = p) fs)))"

text \<open>\<^verbatim>\<open>fs.mkdirSync(p, { recursive: true })\<close> walks the prefixes of the path, the
  shortest first, and creates the missing ones.\<close>

fun mkdirs :: "filesystem \<Rightarrow> path list \<Rightarrow> error + filesystem" where
  "mkdirs fs [] = Inr fs"
| "mkdirs fs (q # qs) =
     (case stat fs q of
        None \<Rightarrow> mkdirs (AList.update q Dir fs) qs
      | Some Dir \<Rightarrow> mkdirs fs qs
      | Some (File c) \<Rightarrow> Inl (if qs = [] then EEXIST else ENOTDIR))"

definition mkdirSync :: "filesystem \<Rightarrow> path \<Rightarrow> error + filesystem" where
  "mkdirSync fs p = mkdirs fs (prefixes p)"

text \<open>\<^verbatim>\<open>fs.writeFileSync(p, data)\<close>: the data must be a string; the file is created
  or replaced; its directory must exist.\<close>

definition writeFileSync :: "filesystem \<Rightarrow> path \<Rightarrow> json \<Rightarrow> error + filesystem" where
  "writeFileSync fs p data =
     (case data of
        JString text \<Rightarrow>
          (if p = [] then Inl EISDIR
           else (case stat fs (butlast p) of
                   None \<Rightarrow> Inl ENOENT
                 | Some (File c) \<Rightarrow> Inl ENOTDIR
                 | Some Dir \<Rightarrow>
                     (case stat fs p of
                        Some Dir \<Rightarrow> Inl EISDIR
                      | _ \<Rightarrow> Inr (AList.update p (File text) fs))))
      | _ \<Rightarrow> Inl TypeError)"

subsection \<open>Configuration and plan paths\<close>

text \<open>
  \<^verbatim>\<open>getConfig()\<close> reads \<^verbatim>\<open>~/.flowcode/config.json\<close>; its value is a parameter
  here. The folder name is one path component.
\<close>

record config =
  geminiApiKey :: string
  planFolderName :: string

definition getPlanFolderPath :: "config \<Rightarrow> path \<Rightarrow> path" where
  "getPlanFolderPath cfg projectPath =
     projectPath @ [if planFolderName cfg \<noteq> [] then planFolderName cfg else ''plan'']"

text \<open>The decimal numeral of a number, as the template \<^verbatim>\<open>`v${version}`\<close>
  prints it.\<close>

fun showNat :: "nat \<Rightarrow> string" where
  "showNat n =
     (if n < 10 then [''0123456789'' ! n]
      else showNat (n div 10) @ [''0123456789'' ! (n mod 10)])"

declare showNat.simps [simp del]

definition getVersionedPlanFolderPath :: "config \<Rightarrow> path \<Rightarrow> nat \<Rightarrow> path" where
  "getVersionedPlanFolderPath cfg projectPath version =
     getPlanFolderPath cfg projectPath @ [''v'' @ showNat version]"

subsection \<open>\<^verbatim>\<open>getNextPlanVersion\<close>\<close>

text \<open>\<^verbatim>\<open>/^\d+$/.test(s)\<close>.\<close>

definition allDigits :: "string \<Rightarrow> bool" where
  "allDigits s \<longleftrightarrow> s \<noteq> [] \<and> list_all isDigit s"

text \<open>\<^verbatim>\<open>parseInt(s)\<close> on a string of decimal digits.\<close>

definition digitValue :: "char \<Rightarrow> nat" where
  "digitValue c = of_char c - 48"

definition parseInt :: "string \<Rightarrow> nat" where
  "parseInt s = foldl (\<lambda>a c. 10 * a + digitValue c) 0 s"

definition isVersionName :: "string \<Rightarrow> bool" where
  "isVersionName d \<longleftrightarrow> startsWith d ''v'' \<and> allDigits (drop 1 d)"

definition getNextPlanVersion :: "config \<Rightarrow> filesystem \<Rightarrow> path \<Rightarrow> error + nat" where
  "getNextPlanVersion cfg fs projectPath =
     (let planFolder = getPlanFolderPath cfg projectPath in
      if \<not> existsSync fs planFolder then Inr 1
      else (case readdirSync fs planFolder of
              Inl e \<Rightarrow> Inl e
            | Inr names \<Rightarrow>
                (let dirs = filter isVersionName names in
                 if length dirs = 0 then Inr 1
                 else (let versions = map (\<lambda>d. parseInt (drop 1 d)) dirs
                       in Inr (Max (set versions) + 1)))))"

subsection \<open>\<^verbatim>\<open>writePlanFiles\<close>\<close>

definition fileOrder :: "string list" where
  "fileOrder = [''PRD'', ''ARCHITECTURE'', ''STACK'', ''TASKS'', ''STRUCTURE'', ''SCHEMA'',
     ''CONVENTIONS'', ''ENV'', ''API'', ''UI'', ''ERRORS'']"

text \<open>\<^verbatim>\<open>toLowerCase\<close>, on the letters A to Z (it is applied to the section names
  only).\<close>

definition toLowerCase :: "string \<Rightarrow> string" where
  "toLowerCase s =
     map (\<lambda>c. if (65::nat) \<le> of_char c \<and> (of_char c :: nat) \<le> 90
               then char_of (of_char c + (32::nat)) else c) s"

definition sectionFile :: "path \<Rightarrow> string \<Rightarrow> path" where
  "sectionFile folder fileName = folder @ [toLowerCase fileName @ ''.md'']"

text \<open>
  One \<^verbatim>\<open>for (const fileName of fileOrder)\<close> loop: a section is written when
  \<^verbatim>\<open>files[fileName]\<close> is truthy. The result is the exception thrown, if any, and
  the file system reached.
\<close>

fun writeSections :: "path \<Rightarrow> json \<Rightarrow> string list \<Rightarrow> filesystem \<Rightarrow> error option \<times> filesystem" where
  "writeSections folder files [] fs = (None, fs)"
| "writeSections folder files (fileName # rest) fs =
     (case getProp files fileName of
        None \<Rightarrow> writeSections folder files rest fs
      | Some v \<Rightarrow>
          if truthy v then
            (case writeFileSync fs (sectionFile folder fileName) v of
               Inl e \<Rightarrow> (Some e, fs)
             | Inr fs' \<Rightarrow> writeSections folder files rest fs')
          else writeSections folder files rest fs)"

definition writePlanFiles ::
    "config \<Rightarrow> filesystem \<Rightarrow> path \<Rightarrow> json \<Rightarrow> nat \<Rightarrow> error option \<times> filesystem" where
  "writePlanFiles cfg fs projectPath files version =
     (let versionedFolder = getVersionedPlanFolderPath cfg projectPath version in
      case (if \<not> existsSync fs versionedFolder then mkdirSync fs versionedFolder else Inr fs) of
        Inl e \<Rightarrow> (Some e, fs)
      | Inr fs1 \<Rightarrow>
          (case writeSections versionedFolder files fileOrder fs1 of
             (Some e, fs2) \<Rightarrow> (Some e, fs2)
           | (None, fs2) \<Rightarrow>
               writeSections (getPlanFolderPath cfg projectPath) files fileOrder fs2))"

section \<open>Sessions and the chat turn\<close>

subsection \<open>Session store\<close>

datatype role = User | Assistant

record message =
  message_id :: string
  role :: role
  content :: string
  timestamp :: nat

record session =
  session_id :: string
  projectName :: string
  projectPath :: path
  createdAt :: nat
  updatedAt :: nat
  messages :: "message list"
  planGenerated :: bool
  planVersion :: nat

text \<open>
  The sessions directory holds one file \<^verbatim>\<open><id>.json\<close> per session. A file either
  parses to the session that \<^verbatim>\<open>JSON.stringify\<close> wrote, or does not parse.
  \<^verbatim>\<open>Date.now()\<close> is the parameter \<open>now\<close>.
\<close>

datatype doc = Malformed | Doc session

type_synonym store = "string \<rightharpoonup> doc"

definition getSession :: "store \<Rightarrow> string \<Rightarrow> error + session option" where
  "getSession st sessionId =
     (case st sessionId of
        None \<Rightarrow> Inr None
      | Some Malformed \<Rightarrow> Inl SyntaxError
      | Some (Doc s) \<Rightarrow> Inr (Some s))"

definition saveSession :: "nat \<Rightarrow> store \<Rightarrow> session \<Rightarrow> session \<times> store" where
  "saveSession now st s =
     (let s' = s\<lparr>updatedAt := now\<rparr> in (s', st(session_id s' \<mapsto> Doc s')))"

definition createSession :: "nat \<Rightarrow> store \<Rightarrow> string \<Rightarrow> path \<Rightarrow> string \<Rightarrow> session \<times> store" where
  "createSession now st newId projectPath' projectName' =
     saveSession now st
       \<lparr>session_id = newId, projectName = projectName', projectPath = projectPath',
        createdAt = now, updatedAt = now, messages = [],
        planGenerated = False, planVersion = 0\<rparr>"

definition addMessage ::
    "nat \<Rightarrow> store \<Rightarrow> string \<Rightarrow> message \<Rightarrow> error + (session option \<times> store)" where
  "addMessage now st sessionId msg =
     (case getSession st sessionId of
        Inl e \<Rightarrow> Inl e
      | Inr None \<Rightarrow> Inr (None, st)
      | Inr (Some s) \<Rightarrow>
          (case saveSession now st (s\<lparr>messages := messages s @ [msg]\<rparr>) of
             (s', st') \<Rightarrow> Inr (Some s', st')))"

subsection \<open>One chat turn of \<^verbatim>\<open>main\<close>\<close>

text \<open>
  The state of the program between two inputs: the file system, the sessions
  directory and the variable \<^verbatim>\<open>session\<close> (\<open>None\<close> is \<^verbatim>\<open>null\<close>).
\<close>

record app =
  files :: filesystem
  sessions :: store
  current :: "session option"

definition newMessage :: "nat \<Rightarrow> role \<Rightarrow> string \<Rightarrow> message" where
  "newMessage now r text =
     \<lparr>message_id = ''msg_'' @ showNat now, role = r, content = text, timestamp = now\<rparr>"

text \<open>\<^verbatim>\<open>planJson && planJson.files\<close>: the value of the expression when it is
  truthy.\<close>

definition planFiles :: "json option \<Rightarrow> json option" where
  "planFiles planJson =
     (case planJson of
        None \<Rightarrow> None
      | Some pj \<Rightarrow>
          if truthy pj then
            (case getProp pj ''files'' of
               None \<Rightarrow> None
             | Some f \<Rightarrow> if truthy f then Some f else None)
          else None)"

text \<open>
  The body of the \<^verbatim>\<open>try\<close> once the response has arrived. Every exception in it
  is caught, so that a state always results; an assignment made before the exception
  stays.
\<close>

definition afterResponse :: "config \<Rightarrow> nat \<Rightarrow> app \<Rightarrow> session \<Rightarrow> string \<Rightarrow> app" where
  "afterResponse cfg now a s response =
     (case addMessage now (sessions a) (session_id s) (newMessage now Assistant response) of
        Inl e \<Rightarrow> a
      | Inr (r, st1) \<Rightarrow>
          (let a1 = a\<lparr>sessions := st1, current := r\<rparr> in
           case planFiles (extractPlanJson response) of
             None \<Rightarrow> a1
           | Some f \<Rightarrow>
               (case r of
                  None \<Rightarrow> a1
                | Some s1 \<Rightarrow>
                    (case getNextPlanVersion cfg (files a1) (projectPath s1) of
                       Inl e \<Rightarrow> a1
                     | Inr version \<Rightarrow>
                         (case writePlanFiles cfg (files a1) (projectPath s1) f version of
                            (Some e, fs') \<Rightarrow> a1\<lparr>files := fs'\<rparr>
                          | (None, fs') \<Rightarrow>
                              (case saveSession now st1
                                      (s1\<lparr>planGenerated := True, planVersion := version\<rparr>) of
                                 (s2, st2) \<Rightarrow>
                                   \<lparr>files = fs', sessions = st2, current = Some s2\<rparr>))))))"

text \<open>
  A turn for a non-empty input that is not a command. The first
  \<^verbatim>\<open>addMessage\<close> is outside the \<^verbatim>\<open>try\<close>: an exception there, or a
  \<^verbatim>\<open>null\<close> session, ends the program (\<open>Inl\<close>). The chat capability is a
  parameter: it answers the history with a text or throws.
\<close>

definition chatTurn ::
    "config \<Rightarrow> nat \<Rightarrow> ((role \<times> string) list \<Rightarrow> error + string) \<Rightarrow> app \<Rightarrow> string \<Rightarrow> error + app" where
  "chatTurn cfg now chat a trimmed =
     (case current a of
        None \<Rightarrow> Inl TypeError
      | Some s0 \<Rightarrow>
          (case addMessage now (sessions a) (session_id s0) (newMessage now User trimmed) of
             Inl e \<Rightarrow> Inl e
           | Inr (None, st1) \<Rightarrow> Inl TypeError
           | Inr (Some s1, st1) \<Rightarrow>
               (let a1 = a\<lparr>sessions := st1, current := Some s1\<rparr> in
                case chat (map (\<lambda>m. (role m, content m)) (messages s1)) of
                  Inl e \<Rightarrow> Inr a1
                | Inr response \<Rightarrow> Inr (afterResponse cfg now a1 s1 response))))"

subsection \<open>The inputs of \<^verbatim>\<open>main\<close>\<close>

text \<open>
  The inputs that bear on sessions and plans: the start-up question and
  \<^verbatim>\<open>/new\<close> create a session (\<^verbatim>\<open>generateSessionId\<close> and
  \<^verbatim>\<open>process.cwd()\<close> are given by the event), ``resume'' and \<^verbatim>\<open>/resume\<close>
  select a stored session, and every other non-empty line is a chat turn, whose event
  carries the outcome of the chat capability. The configuration is fixed during a run.
\<close>

datatype event =
    NewSession nat string path string
  | ResumeSession string
  | ChatTurn nat string "error + string"

fun step :: "config \<Rightarrow> app \<Rightarrow> event \<Rightarrow> error + app" where
  "step cfg a (NewSession now newId cwd name) =
     (case createSession now (sessions a) newId cwd (if name \<noteq> [] then name else ''New Project'') of
        (s, st) \<Rightarrow> Inr (a\<lparr>sessions := st, current := Some s\<rparr>))"
| "step cfg a (ResumeSession sessionId) =
     (case sessions a sessionId of
        None \<Rightarrow> Inr a
      | Some Malformed \<Rightarrow> Inl SyntaxError
      | Some (Doc s) \<Rightarrow> Inr (a\<lparr>current := Some s\<rparr>))"
| "step cfg a (ChatTurn now trimmed outcome) = chatTurn cfg now (\<lambda>history. outcome) a trimmed"


text \<open>The program starts with no session chosen and, in this model, an empty sessions
  directory.\<close>

definition startup :: "filesystem \<Rightarrow> app" where
  "startup fs = \<lparr>files = fs, sessions = Map.empty, current = None\<rparr>"

section \<open>Notions used in the statements\<close>

text \<open>The text that the scanner has collected from the lines \<open>ls\<close>: each line with
  its line feed.\<close>

definition joinLines :: "string list \<Rightarrow> string" where
  "joinLines ls = concat (map (\<lambda>l. l @ [NL]) ls)"

text \<open>The net count of braces over the lines, as \<^verbatim>\<open>braceCount\<close> adds it up.\<close>

definition braceBalance :: "string list \<Rightarrow> int" where
  "braceBalance ls = sum_list (map (\<lambda>l. occurrences (CHR ''{'') l - occurrences (CHR ''}'') l) ls)"

text \<open>The markdown of a section, when \<^verbatim>\<open>files[fileName]\<close> is a non-empty string.\<close>

definition sectionText :: "json \<Rightarrow> string \<Rightarrow> string option" where
  "sectionText f n =
     (case getProp f n of
        Some (JString t) \<Rightarrow> if t \<noteq> [] then Some t else None
      | _ \<Rightarrow> None)"

text \<open>The first step of \<^verbatim>\<open>writePlanFiles\<close>: the versioned folder exists already or
  \<^verbatim>\<open>mkdirSync\<close> has made it.\<close>

definition prepared :: "filesystem \<Rightarrow> path \<Rightarrow> filesystem \<Rightarrow> bool" where
  "prepared fs vf fs1 \<longleftrightarrow>
     (existsSync fs vf \<and> fs1 = fs) \<or> (\<not> existsSync fs vf \<and> mkdirSync fs vf = Inr fs1)"

text \<open>What a session says about its plan holds on the file system: the version is at
  least 1 and the versioned folder is a directory.\<close>

definition planRecorded :: "config \<Rightarrow> filesystem \<Rightarrow> session \<Rightarrow> bool" where
  "planRecorded cfg fs s \<longleftrightarrow>
     (planGenerated s \<longrightarrow>
        1 \<le> planVersion s \<and>
        stat fs (getVersionedPlanFolderPath cfg (projectPath s) (planVersion s)) = Some Dir)"



section \<open>Properties of the session store\<close>

text \<open>
  C9. \<^verbatim>\<open>addMessage\<close> on a session id that has no file in the sessions directory
  returns \<^verbatim>\<open>null\<close> and writes nothing: the store is the same afterwards, so that
  no session has been created.
\<close>

theorem addMessage_missing:
  "st sessionId = None \<Longrightarrow> addMessage now st sessionId msg = Inr (None, st)"
  by (simp add: addMessage_def getSession_def)

theorem addMessage_missing_witness:
  "(Map.empty :: store) ''session_1'' = None \<and>
   addMessage 5 Map.empty ''session_1'' (newMessage 5 User ''hello'') = Inr (None, Map.empty)"
  using addMessage_missing [of Map.empty "''session_1''" 5 "newMessage 5 User ''hello''"]
  by simp

section \<open>Properties of the plan versioner\<close>

subsection \<open>Directory listings\<close>

lemma stat_in_table:
  "stat fs p = Some e \<Longrightarrow> p \<noteq> [] \<Longrightarrow> (p, e) \<in> set fs"
  by (simp add: stat_def map_of_SomeD)

lemma wf_parent:
  "wf_fs fs \<Longrightarrow> stat fs (p @ [n]) = Some e \<Longrightarrow> stat fs p = Some Dir"
  using stat_in_table[of fs "p @ [n]" e] by (fastforce simp: wf_fs_def)




subsection \<open>The next version\<close>











section \<open>Properties of the extractor\<close>

subsection \<open>The scanner, phase by phase\<close>

lemma scan_skip_outside:
  "\<not> inJsonBlock st \<Longrightarrow> \<forall>l \<in> set pre. \<not> opensBlock l \<Longrightarrow> scan st (pre @ rest) = scan st rest"
  by (induction pre) simp_all

lemma scan_open:
  "\<not> inJsonBlock st \<Longrightarrow> opensBlock l \<Longrightarrow>
   scan st (l # rest) =
     scan \<lparr>jsonContent = [], inJsonBlock = True, braceCount = 0, started = False\<rparr> rest"
  by (cases st) simp

lemma scan_skip_inside:
  "inJsonBlock st \<Longrightarrow> \<not> started st \<Longrightarrow> \<forall>l \<in> set lead. \<not> startsWith (trim l) ''{'' \<Longrightarrow>
   scan st (lead @ rest) = scan st rest"
  by (induction lead) simp_all

lemma scan_first:
  "inJsonBlock st \<Longrightarrow> \<not> started st \<Longrightarrow> startsWith (trim l) ''{'' \<Longrightarrow>
   scan st (l # rest) =
     scan \<lparr>jsonContent = jsonContent st @ l @ [NL], inJsonBlock = True,
           braceCount = braceCount st + braceBalance [l], started = True\<rparr> rest"
  by (cases st) (simp add: braceBalance_def add_diff_eq)

lemma scan_capture:
  "inJsonBlock st \<Longrightarrow> started st \<Longrightarrow> \<forall>l \<in> set js. trim l \<noteq> ''```'' \<Longrightarrow>
   scan st (js @ rest) =
     scan \<lparr>jsonContent = jsonContent st @ joinLines js, inJsonBlock = True,
           braceCount = braceCount st + braceBalance js, started = True\<rparr> rest"
proof (induction js arbitrary: st)
  case Nil
  then show ?case by (cases st) (simp add: joinLines_def braceBalance_def)
next
  case (Cons l js)
  let ?st1 = "st\<lparr>started := True, jsonContent := jsonContent st @ l @ [NL],
                 braceCount := braceCount st + occurrences (CHR ''{'') l - occurrences (CHR ''}'') l\<rparr>"
  have step: "scan st ((l # js) @ rest) = scan ?st1 (js @ rest)"
    using Cons.prems by simp
  have "scan ?st1 (js @ rest) =
     scan \<lparr>jsonContent = jsonContent ?st1 @ joinLines js, inJsonBlock = True,
           braceCount = braceCount ?st1 + braceBalance js, started = True\<rparr> rest"
    using Cons.prems by (intro Cons.IH) simp_all
  then show ?case
    unfolding step by (simp add: joinLines_def braceBalance_def algebra_simps)
qed

lemma scan_close:
  "inJsonBlock st \<Longrightarrow> started st \<Longrightarrow> braceCount st = 0 \<Longrightarrow> trim l = ''```'' \<Longrightarrow>
   scan st (l # rest) = st"
  by simp

lemma scan_block:
  assumes pre: "\<forall>l \<in> set pre. \<not> opensBlock l"
    and opn: "opensBlock opn"
    and lead: "\<forall>l \<in> set lead. \<not> startsWith (trim l) ''{''"
    and first: "startsWith (trim j) ''{''"
    and nofence: "\<forall>l \<in> set js. trim l \<noteq> ''```''"
    and balance: "braceBalance (j # js) = 0"
    and cls: "trim cls = ''```''"
  shows "scan scan_init (pre @ opn # lead @ j # js @ cls # post) =
           \<lparr>jsonContent = joinLines (j # js), inJsonBlock = True, braceCount = 0, started = True\<rparr>"
proof -
  let ?s1 = "\<lparr>jsonContent = [], inJsonBlock = True, braceCount = 0, started = False\<rparr>"
  let ?s2 = "\<lparr>jsonContent = jsonContent ?s1 @ j @ [NL], inJsonBlock = True,
           braceCount = braceCount ?s1 + braceBalance [j], started = True\<rparr>"
  let ?s3 = "\<lparr>jsonContent = jsonContent ?s2 @ joinLines js, inJsonBlock = True,
           braceCount = braceCount ?s2 + braceBalance js, started = True\<rparr>"
  have "scan scan_init (pre @ opn # lead @ j # js @ cls # post)
        = scan scan_init (opn # lead @ j # js @ cls # post)"
    using pre by (intro scan_skip_outside) (simp_all add: scan_init_def)
  also have "\<dots> = scan ?s1 (lead @ j # js @ cls # post)"
    using opn by (intro scan_open) (simp_all add: scan_init_def)
  also have "\<dots> = scan ?s1 (j # js @ cls # post)"
    using lead by (intro scan_skip_inside) simp_all
  also have "\<dots> = scan ?s2 (js @ cls # post)"
    using first by (intro scan_first) simp_all
  also have "\<dots> = scan ?s3 (cls # post)"
    using nofence by (intro scan_capture) simp_all
  also have "\<dots> = ?s3"
    using balance cls by (intro scan_close) (simp_all add: braceBalance_def)
  also have "?s3 = \<lparr>jsonContent = joinLines (j # js), inJsonBlock = True, braceCount = 0, started = True\<rparr>"
    using balance by (simp add: joinLines_def braceBalance_def)
  finally show ?thesis .
qed

lemma trim_Nil_iff: "trim s = [] \<longleftrightarrow> (\<forall>c \<in> set s. isWhiteSpace c)"
proof -
  have "dropWhile isWhiteSpace (rev (dropWhile isWhiteSpace s)) = []
        \<longleftrightarrow> dropWhile isWhiteSpace s = []"
  proof
    assume a: "dropWhile isWhiteSpace (rev (dropWhile isWhiteSpace s)) = []"
    show "dropWhile isWhiteSpace s = []"
    proof (rule ccontr)
      assume ne: "dropWhile isWhiteSpace s \<noteq> []"
      then have "\<not> isWhiteSpace (hd (dropWhile isWhiteSpace s))" by (rule hd_dropWhile)
      moreover have "hd (dropWhile isWhiteSpace s) \<in> set (rev (dropWhile isWhiteSpace s))"
        using ne by simp
      ultimately show False using a by (simp only: dropWhile_eq_Nil_conv) blast
    qed
  next
    assume e: "dropWhile isWhiteSpace s = []"
    show "dropWhile isWhiteSpace (rev (dropWhile isWhiteSpace s)) = []"
      unfolding e by simp
  qed
  then have X: "trim s = [] \<longleftrightarrow> dropWhile isWhiteSpace s = []"
    by (simp only: trim_def rev_is_Nil_conv)
  show ?thesis by (rule trans [OF X dropWhile_eq_Nil_conv])
qed

lemma startsWith_brace_not_blank:
  assumes "startsWith (trim j) ''{''"
  shows "trim (joinLines (j # js)) \<noteq> []"
proof -
  have "trim j \<noteq> []" using assms by (auto simp: startsWith_def)
  then obtain c where "c \<in> set j" "\<not> isWhiteSpace c" by (auto simp: trim_Nil_iff)
  then have "\<exists>c \<in> set (joinLines (j # js)). \<not> isWhiteSpace c"
    by (auto simp: joinLines_def)
  then show ?thesis by (simp add: trim_Nil_iff)
qed

lemma extract_block:
  assumes lines: "split_lines response = pre @ opn # lead @ j # js @ cls # post"
    and pre: "\<forall>l \<in> set pre. \<not> opensBlock l"
    and opn: "opensBlock opn"
    and lead: "\<forall>l \<in> set lead. \<not> startsWith (trim l) ''{''"
    and first: "startsWith (trim j) ''{''"
    and nofence: "\<forall>l \<in> set js. trim l \<noteq> ''```''"
    and balance: "braceBalance (j # js) = 0"
    and cls: "trim cls = ''```''"
  shows "extractPlanJson response = JSON_parse (joinLines (j # js))"
  using scan_block[OF pre opn lead first nofence balance cls, of post]
    startsWith_brace_not_blank[OF first, of js]
  by (simp add: extractPlanJson_def lines)

subsection \<open>Lines and pieces of the text\<close>

lemma startsWith_iff: "startsWith s p \<longleftrightarrow> (\<exists>b. s = p @ b)"
proof
  assume "startsWith s p"
  then have "s = p @ drop (length p) s"
    by (metis startsWith_def append_take_drop_id)
  then show "\<exists>b. s = p @ b" ..
next
  assume "\<exists>b. s = p @ b"
  then show "startsWith s p" by (auto simp: startsWith_def)
qed

lemma str_includes_iff: "str_includes s p \<longleftrightarrow> (\<exists>a b. s = a @ p @ b)"
proof (induction s)
  case Nil
  then show ?case by auto
next
  case (Cons c cs)
  show ?case
  proof
    assume "str_includes (c # cs) p"
    then consider "startsWith (c # cs) p" | "str_includes cs p" by auto
    then show "\<exists>a b. c # cs = a @ p @ b"
    proof cases
      case 1
      then obtain b where "c # cs = p @ b" by (auto simp: startsWith_iff)
      then have "c # cs = [] @ p @ b" by simp
      then show ?thesis by blast
    next
      case 2
      then obtain a b where "cs = a @ p @ b" using Cons.IH by auto
      then have "c # cs = (c # a) @ p @ b" by simp
      then show ?thesis by blast
    qed
  next
    assume "\<exists>a b. c # cs = a @ p @ b"
    then obtain a b where ab: "c # cs = a @ p @ b" by auto
    show "str_includes (c # cs) p"
    proof (cases a)
      case Nil
      then have "startsWith (c # cs) p" using ab by (auto simp: startsWith_iff)
      then show ?thesis by simp
    next
      case (Cons x a')
      then have "cs = a' @ p @ b" using ab by simp
      then have "str_includes cs p" using Cons.IH by blast
      then show ?thesis by simp
    qed
  qed
qed

lemma trim_piece: "\<exists>a b. s = a @ trim s @ b"
proof -
  let ?t = "dropWhile isWhiteSpace s"
  have "rev ?t = takeWhile isWhiteSpace (rev ?t) @ dropWhile isWhiteSpace (rev ?t)" by simp
  then have "rev (rev ?t) = rev (takeWhile isWhiteSpace (rev ?t) @ dropWhile isWhiteSpace (rev ?t))"
    by (rule arg_cong)
  then have "?t = trim s @ rev (takeWhile isWhiteSpace (rev ?t))"
    by (simp only: rev_rev_ident rev_append trim_def)
  moreover have "s = takeWhile isWhiteSpace s @ ?t" by simp
  ultimately have "s = takeWhile isWhiteSpace s @ trim s @ rev (takeWhile isWhiteSpace (rev ?t))"
    by metis
  then show ?thesis by blast
qed

lemma split_lines_not_Nil: "split_lines s \<noteq> []"
  by (induction s) (auto split: list.splits)

lemma split_lines_hd: "\<exists>b. s = hd (split_lines s) @ b"
proof (induction s)
  case Nil
  then show ?case by simp
next
  case (Cons c cs)
  then obtain b where "cs = hd (split_lines cs) @ b" by auto
  then show ?case
    using split_lines_not_Nil[of cs]
    by (cases "split_lines cs") auto
qed

lemma split_lines_piece: "l \<in> set (split_lines s) \<Longrightarrow> \<exists>a b. s = a @ l @ b"
proof (induction s arbitrary: l)
  case Nil
  then show ?case by simp
next
  case (Cons c cs)
  show ?case
  proof (cases "c = NL")
    case True
    then have "l = [] \<or> l \<in> set (split_lines cs)" using Cons.prems by auto
    then show ?thesis
    proof
      assume "l = []"
      then have "c # cs = [] @ l @ (c # cs)" by simp
      then show ?thesis by blast
    next
      assume "l \<in> set (split_lines cs)"
      then obtain a b where "cs = a @ l @ b" using Cons.IH by blast
      then have "c # cs = (c # a) @ l @ b" by simp
      then show ?thesis by blast
    qed
  next
    case False
    obtain l0 ls where sl: "split_lines cs = l0 # ls"
      using split_lines_not_Nil[of cs] by (cases "split_lines cs") auto
    then have "l = c # l0 \<or> l \<in> set ls" using Cons.prems False by auto
    then show ?thesis
    proof
      assume l: "l = c # l0"
      obtain b where "cs = l0 @ b" using split_lines_hd[of cs] sl by auto
      then have "c # cs = [] @ l @ b" using l by simp
      then show ?thesis by blast
    next
      assume "l \<in> set ls"
      then have "l \<in> set (split_lines cs)" using sl by simp
      then obtain a b where "cs = a @ l @ b" using Cons.IH by blast
      then have "c # cs = (c # a) @ l @ b" by simp
      then show ?thesis by blast
    qed
  qed
qed

lemma opensBlock_fence: "opensBlock l \<Longrightarrow> \<exists>b. trim l = ''```'' @ b"
proof -
  assume "opensBlock l"
  then consider b where "trim l = ''```md'' @ b" | b where "trim l = ''```json'' @ b"
    unfolding opensBlock_def startsWith_iff by blast
  then show ?thesis
  proof cases
    case 1
    then have "trim l = ''```'' @ (''md'' @ b)" by simp
    then show ?thesis by blast
  next
    case 2
    then have "trim l = ''```'' @ (''json'' @ b)" by simp
    then show ?thesis by blast
  qed
qed

lemma opening_line_has_fence:
  assumes "opensBlock l" and "l \<in> set (split_lines response)"
  shows "str_includes response ''```''"
proof -
  obtain b where b: "trim l = ''```'' @ b" using opensBlock_fence[OF assms(1)] by blast
  obtain a1 b1 where l: "l = a1 @ trim l @ b1" using trim_piece[of l] by blast
  obtain a2 b2 where r: "response = a2 @ l @ b2" using split_lines_piece[OF assms(2)] by blast
  have "l = a1 @ ''```'' @ (b @ b1)" using l b by simp
  then have "response = (a2 @ a1) @ ''```'' @ (b @ b1 @ b2)" using r by simp
  then show ?thesis unfolding str_includes_iff by blast
qed

lemma scan_no_opening:
  "\<forall>l \<in> set ls. \<not> opensBlock l \<Longrightarrow> scan scan_init ls = scan_init"
  using scan_skip_outside[of scan_init ls "[]"] by (simp add: scan_init_def)

text \<open>
  C2, as the code has it. A response without any fence marker (no three consecutive
  backticks) is never scanned into a block, so that \<^verbatim>\<open>extractPlanJson\<close> answers
  with its fallback alone: NotFound when the pattern \<^verbatim>\<open>{ ... "files" ... }\<close> has
  no match in the text, and otherwise the parse of the match, from the first
  \<^verbatim>\<open>{\<close> to the last \<^verbatim>\<open>}\<close> (NotFound when that is not JSON).
\<close>

theorem extract_without_fence:
  assumes "\<not> str_includes response ''```''"
  shows "extractPlanJson response =
           (case jsonMatch response of None \<Rightarrow> None | Some m \<Rightarrow> JSON_parse m)"
proof -
  have "\<forall>l \<in> set (split_lines response). \<not> opensBlock l"
    using assms opening_line_has_fence by blast
  then have "scan scan_init (split_lines response) = scan_init" by (rule scan_no_opening)
  then show ?thesis
    by (simp add: extractPlanJson_def scan_init_def trim_def)
qed

theorem extract_without_fence_witness:
  "\<not> str_includes ''Tell me more about {your} idea'' ''```'' \<and>
   extractPlanJson ''Tell me more about {your} idea'' = None"
proof -
  have h: "\<not> str_includes ''Tell me more about {your} idea'' ''```''" by code_simp
  have m: "jsonMatch ''Tell me more about {your} idea'' = None" by code_simp
  show ?thesis using h extract_without_fence [OF h] m by simp
qed

text \<open>
  C2 as the specification words it is refuted: a bare JSON object with a
  \<^verbatim>\<open>files\<close> key has no fence at all and is extracted by the fallback.
\<close>

theorem extract_without_fence_counterexample:
  \<open>\<not> str_includes ''{"files":{"PRD":"x"}}'' ''```'' \<and>
   extractPlanJson ''{"files":{"PRD":"x"}}'' =
     Some (JObject [(''files'', JObject [(''PRD'', JString ''x'')])])\<close>
  by code_simp

subsection \<open>Fenced blocks\<close>

lemma opensBlock_not_brace: "opensBlock l \<Longrightarrow> \<not> startsWith (trim l) ''{''"
proof -
  assume "opensBlock l"
  then obtain b where "trim l = ''```'' @ b" using opensBlock_fence by blast
  then show ?thesis by (simp add: startsWith_def)
qed

lemma closing_not_brace: "trim l = ''```'' \<Longrightarrow> \<not> startsWith (trim l) ''{''"
  by (simp add: startsWith_def)

lemma closing_not_opening: "trim l = ''```'' \<Longrightarrow> \<not> opensBlock l"
  by (simp add: opensBlock_def startsWith_def)

lemma parsed_files_truthy:
  "getProp pj ''files'' = Some f \<Longrightarrow> planFiles (Some pj) = (if truthy f then Some f else None)"
  by (cases pj) (simp_all add: planFiles_def)

text \<open>
  C5, as the code has it. The lines of the response are: lines \<open>pre\<close> none of which
  opens an \<^verbatim>\<open>md\<close> or \<^verbatim>\<open>json\<close> fence, the opening fence, lines \<open>lead\<close> that do
  not begin with \<^verbatim>\<open>{\<close>, the lines \<open>j # js\<close> of the JSON object (the first begins
  with \<^verbatim>\<open>{\<close>, none is a bare fence, the braces counted literally balance), the
  closing fence, and anything after. Then \<^verbatim>\<open>extractPlanJson\<close> returns the parse of
  exactly the lines \<open>j # js\<close>; its \<^verbatim>\<open>files\<close> member, with every section as parsed,
  is what \<^verbatim>\<open>main\<close> hands to the writer.
\<close>

theorem extract_first_block:
  assumes lines: "split_lines response = pre @ opn # lead @ j # js @ cls # post"
    and pre: "\<forall>l \<in> set pre. \<not> opensBlock l"
    and opn: "opensBlock opn"
    and lead: "\<forall>l \<in> set lead. \<not> startsWith (trim l) ''{''"
    and first: "startsWith (trim j) ''{''"
    and nofence: "\<forall>l \<in> set js. trim l \<noteq> ''```''"
    and balance: "braceBalance (j # js) = 0"
    and cls: "trim cls = ''```''"
    and parse: "JSON_parse (joinLines (j # js)) = Some pj"
    and filesKey: "getProp pj ''files'' = Some f"
  shows "extractPlanJson response = Some pj \<and>
         planFiles (extractPlanJson response) = (if truthy f then Some f else None)"
proof -
  have "extractPlanJson response = JSON_parse (joinLines (j # js))"
    using lines pre opn lead first nofence balance cls by (rule extract_block)
  then have r: "extractPlanJson response = Some pj" using parse by simp
  show ?thesis
    unfolding r using parsed_files_truthy[OF filesKey] by simp
qed

theorem extract_first_block_witness:
  \<open>extractPlanJson
     (''Here is the plan:'' @ [NL] @ ''```md'' @ [NL] @ ''{'' @ [NL] @
      ''  "files": {"PRD": "x", "TASKS": "y"}'' @ [NL] @ ''}'' @ [NL] @ ''```'' @ [NL] @ ''Done'')
     = Some (JObject [(''files'', JObject [(''PRD'', JString ''x''), (''TASKS'', JString ''y'')])]) \<and>
   planFiles (extractPlanJson
     (''Here is the plan:'' @ [NL] @ ''```md'' @ [NL] @ ''{'' @ [NL] @
      ''  "files": {"PRD": "x", "TASKS": "y"}'' @ [NL] @ ''}'' @ [NL] @ ''```'' @ [NL] @ ''Done''))
     = (if truthy (JObject [(''PRD'', JString ''x''), (''TASKS'', JString ''y'')])
        then Some (JObject [(''PRD'', JString ''x''), (''TASKS'', JString ''y'')]) else None)\<close>
proof -
  let ?r = \<open>''Here is the plan:'' @ [NL] @ ''```md'' @ [NL] @ ''{'' @ [NL] @
      ''  "files": {"PRD": "x", "TASKS": "y"}'' @ [NL] @ ''}'' @ [NL] @ ''```'' @ [NL] @ ''Done''\<close>
  have h1: \<open>split_lines ?r =
      [''Here is the plan:''] @ ''```md'' # [] @ ''{'' #
        [''  "files": {"PRD": "x", "TASKS": "y"}'', ''}''] @ ''```'' # [''Done'']\<close>
    by code_simp
  have h2: "\<forall>l \<in> set [''Here is the plan:'']. \<not> opensBlock l" by code_simp
  have h3: "opensBlock ''```md''" by code_simp
  have h4: "\<forall>l \<in> set []. \<not> startsWith (trim l) ''{''" by simp
  have h5: "startsWith (trim ''{'') ''{''" by code_simp
  have h6: \<open>\<forall>l \<in> set [''  "files": {"PRD": "x", "TASKS": "y"}'', ''}'']. trim l \<noteq> ''```''\<close>
    by code_simp
  have h7: \<open>braceBalance (''{'' # [''  "files": {"PRD": "x", "TASKS": "y"}'', ''}'']) = 0\<close>
    by code_simp
  have h8: "trim ''```'' = ''```''" by code_simp
  have h9: \<open>JSON_parse (joinLines (''{'' # [''  "files": {"PRD": "x", "TASKS": "y"}'', ''}''])) =
      Some (JObject [(''files'', JObject [(''PRD'', JString ''x''), (''TASKS'', JString ''y'')])])\<close>
    by code_simp
  have h10: "getProp (JObject [(''files'', JObject [(''PRD'', JString ''x''), (''TASKS'', JString ''y'')])])
      ''files'' = Some (JObject [(''PRD'', JString ''x''), (''TASKS'', JString ''y'')])"
    by code_simp
  show ?thesis by (rule extract_first_block [OF h1 h2 h3 h4 h5 h6 h7 h8 h9 h10])
qed

text \<open>
  C5 as the specification words it is refuted: the first block that closes with
  balanced braces wins, also when it is not the block that holds \<^verbatim>\<open>files\<close>.
\<close>

theorem extract_first_block_counterexample:
  \<open>extractPlanJson (''```json'' @ [NL] @ ''{"a":1}'' @ [NL] @ ''```'' @ [NL] @
       ''```md'' @ [NL] @ ''{"files":{"PRD":"x"}}'' @ [NL] @ ''```'')
     = Some (JObject [(''a'', JNumber ''1'')]) \<and>
   planFiles (Some (JObject [(''a'', JNumber ''1'')])) = None \<and>
   JSON_parse ''{"files":{"PRD":"x"}}'' =
     Some (JObject [(''files'', JObject [(''PRD'', JString ''x'')])])\<close>
  by code_simp

text \<open>
  C6, as the code has it. Two fenced blocks: the first (any tag) holds lines that
  neither begin with \<^verbatim>\<open>{\<close> nor open an \<^verbatim>\<open>md\<close>/\<^verbatim>\<open>json\<close> fence, and so do the
  lines between the blocks; the second is an \<^verbatim>\<open>md\<close>/\<^verbatim>\<open>json\<close> block whose lines
  \<open>j # js\<close> are a JSON object with literally balanced braces. Then the result is the
  parse of the second block: the closing fence of the first block does not end the scan,
  \<^verbatim>\<open>started\<close> being false there.
\<close>

theorem extract_second_block:
  assumes lines: "split_lines response =
                    pre @ open1 # prose @ close1 # mid @ open2 # j # js @ close2 # post"
    and pre: "\<forall>l \<in> set pre. \<not> opensBlock l"
    and open1: "startsWith (trim open1) ''```''"
    and prose: "\<forall>l \<in> set prose. \<not> startsWith (trim l) ''{'' \<and> \<not> opensBlock l"
    and close1: "trim close1 = ''```''"
    and mid: "\<forall>l \<in> set mid. \<not> startsWith (trim l) ''{'' \<and> \<not> opensBlock l"
    and open2: "opensBlock open2"
    and first: "startsWith (trim j) ''{''"
    and nofence: "\<forall>l \<in> set js. trim l \<noteq> ''```''"
    and balance: "braceBalance (j # js) = 0"
    and close2: "trim close2 = ''```''"
    and parse: "JSON_parse (joinLines (j # js)) = Some pj"
    and filesKey: "getProp pj ''files'' = Some f"
  shows "extractPlanJson response = Some pj \<and>
         planFiles (extractPlanJson response) = (if truthy f then Some f else None)"
proof -
  have "extractPlanJson response = JSON_parse (joinLines (j # js))"
  proof (cases "opensBlock open1")
    case True
    have l: "split_lines response =
               pre @ open1 # (prose @ close1 # mid @ [open2]) @ j # js @ close2 # post"
      using lines by simp
    have lead: "\<forall>l \<in> set (prose @ close1 # mid @ [open2]). \<not> startsWith (trim l) ''{''"
      using prose mid closing_not_brace[OF close1] opensBlock_not_brace[OF open2] by auto
    show ?thesis
      using l pre True lead first nofence balance close2 by (rule extract_block)
  next
    case False
    have l: "split_lines response =
               (pre @ open1 # prose @ close1 # mid) @ open2 # [] @ j # js @ close2 # post"
      using lines by simp
    have pre': "\<forall>l \<in> set (pre @ open1 # prose @ close1 # mid). \<not> opensBlock l"
      using pre False prose mid closing_not_opening[OF close1] by auto
    have lead: "\<forall>l \<in> set []. \<not> startsWith (trim l) ''{''" by simp
    show ?thesis
      using l pre' open2 lead first nofence balance close2 by (rule extract_block)
  qed
  then have r: "extractPlanJson response = Some pj" using parse by simp
  show ?thesis
    unfolding r using parsed_files_truthy[OF filesKey] by simp
qed

theorem extract_second_block_witness:
  \<open>extractPlanJson
     (''intro'' @ [NL] @ ''```md'' @ [NL] @ ''notes'' @ [NL] @ ''```'' @ [NL] @ ''and now'' @ [NL] @
      ''```json'' @ [NL] @ ''{"files":{"PRD":"x"}}'' @ [NL] @ ''```'' @ [NL] @ ''bye'')
     = Some (JObject [(''files'', JObject [(''PRD'', JString ''x'')])]) \<and>
   planFiles (extractPlanJson
     (''intro'' @ [NL] @ ''```md'' @ [NL] @ ''notes'' @ [NL] @ ''```'' @ [NL] @ ''and now'' @ [NL] @
      ''```json'' @ [NL] @ ''{"files":{"PRD":"x"}}'' @ [NL] @ ''```'' @ [NL] @ ''bye''))
     = (if truthy (JObject [(''PRD'', JString ''x'')])
        then Some (JObject [(''PRD'', JString ''x'')]) else None)\<close>
proof -
  let ?r = \<open>''intro'' @ [NL] @ ''```md'' @ [NL] @ ''notes'' @ [NL] @ ''```'' @ [NL] @ ''and now'' @ [NL] @
      ''```json'' @ [NL] @ ''{"files":{"PRD":"x"}}'' @ [NL] @ ''```'' @ [NL] @ ''bye''\<close>
  have h1: \<open>split_lines ?r =
      [''intro''] @ ''```md'' # [''notes''] @ ''```'' # [''and now''] @ ''```json'' #
        ''{"files":{"PRD":"x"}}'' # [] @ ''```'' # [''bye'']\<close>
    by code_simp
  have h2: "\<forall>l \<in> set [''intro'']. \<not> opensBlock l" by code_simp
  have h3: "startsWith (trim ''```md'') ''```''" by code_simp
  have h4: "\<forall>l \<in> set [''notes'']. \<not> startsWith (trim l) ''{'' \<and> \<not> opensBlock l" by code_simp
  have h5: "trim ''```'' = ''```''" by code_simp
  have h6: "\<forall>l \<in> set [''and now'']. \<not> startsWith (trim l) ''{'' \<and> \<not> opensBlock l" by code_simp
  have h7: "opensBlock ''```json''" by code_simp
  have h8: \<open>startsWith (trim ''{"files":{"PRD":"x"}}'') ''{''\<close> by code_simp
  have h9: "\<forall>l \<in> set []. trim l \<noteq> ''```''" by simp
  have h10: \<open>braceBalance (''{"files":{"PRD":"x"}}'' # []) = 0\<close> by code_simp
  have h11: \<open>JSON_parse (joinLines (''{"files":{"PRD":"x"}}'' # [])) =
      Some (JObject [(''files'', JObject [(''PRD'', JString ''x'')])])\<close>
    by code_simp
  have h12: "getProp (JObject [(''files'', JObject [(''PRD'', JString ''x'')])]) ''files''
      = Some (JObject [(''PRD'', JString ''x'')])"
    by code_simp
  show ?thesis
    by (rule extract_second_block [OF h1 h2 h3 h4 h5 h6 h7 h8 h9 h10 h5 h11 h12])
qed

text \<open>
  C6 as the specification words it is refuted: a valid JSON object with a brace inside a
  string leaves \<^verbatim>\<open>braceCount\<close> at 1, the closing fence is taken into the text and
  the parse fails.
\<close>

theorem extract_second_block_counterexample:
  \<open>extractPlanJson (''```md'' @ [NL] @ ''notes'' @ [NL] @ ''```'' @ [NL] @
       ''```json'' @ [NL] @ ''{"files":{"PRD":"use { here"}}'' @ [NL] @ ''```'') = None \<and>
   JSON_parse ''{"files":{"PRD":"use { here"}}'' =
     Some (JObject [(''files'', JObject [(''PRD'', JString ''use { here'')])])\<close>
  by code_simp

section \<open>Properties of the file system and of the writer\<close>

subsection \<open>Single calls\<close>

lemma stat_update:
  "p \<noteq> [] \<Longrightarrow> stat (AList.update p e fs) q = (if q = p then Some e else stat fs q)"
  by (simp add: stat_def update_conv')




lemma writeFileSync_Inr:
  assumes "writeFileSync fs p v = Inr fs'"
  shows "\<exists>t. v = JString t \<and> fs' = AList.update p (File t) fs \<and> p \<noteq> [] \<and>
             stat fs (butlast p) = Some Dir \<and> stat fs p \<noteq> Some Dir"
  using assms
  by (auto simp: writeFileSync_def split: json.splits if_splits option.splits entry.splits)

lemma writeFileSync_ok:
  "p \<noteq> [] \<Longrightarrow> stat fs (butlast p) = Some Dir \<Longrightarrow> stat fs p \<noteq> Some Dir \<Longrightarrow>
   writeFileSync fs p (JString t) = Inr (AList.update p (File t) fs)"
  by (auto simp: writeFileSync_def split: option.splits entry.splits)

lemma writeFileSync_stat:
  "writeFileSync fs p v = Inr fs' \<Longrightarrow> q \<noteq> p \<Longrightarrow> stat fs' q = stat fs q"
  using writeFileSync_Inr[of fs p v fs'] by (auto simp: stat_update)

lemma writeFileSync_Dir:
  "writeFileSync fs p v = Inr fs' \<Longrightarrow> stat fs q = Some Dir \<Longrightarrow> stat fs' q = Some Dir"
  using writeFileSync_Inr[of fs p v fs'] by (auto simp: stat_update)




lemma mkdirs_stat:
  "mkdirs fs qs = Inr fs' \<Longrightarrow>
   stat fs' q = (if q \<in> set qs \<and> stat fs q = None then Some Dir else stat fs q)"
proof (induction qs arbitrary: fs)
  case Nil
  then show ?case by simp
next
  case (Cons a qs)
  show ?case
  proof (cases "stat fs a")
    case None
    then have ne: "a \<noteq> []" by (auto simp: stat_def)
    have "mkdirs (AList.update a Dir fs) qs = Inr fs'" using Cons.prems None by simp
    then have "stat fs' q = (if q \<in> set qs \<and> stat (AList.update a Dir fs) q = None then Some Dir
                             else stat (AList.update a Dir fs) q)"
      by (rule Cons.IH)
    then show ?thesis using None ne by (auto simp: stat_update)
  next
    case (Some e)
    then have e: "e = Dir" using Cons.prems by (cases e) auto
    then have "mkdirs fs qs = Inr fs'" using Cons.prems Some by simp
    then have "stat fs' q = (if q \<in> set qs \<and> stat fs q = None then Some Dir else stat fs q)"
      by (rule Cons.IH)
    then show ?thesis using Some e by auto
  qed
qed



lemma mkdirs_ok:
  "\<forall>q \<in> set qs. \<forall>c. stat fs q \<noteq> Some (File c) \<Longrightarrow> \<exists>fs'. mkdirs fs qs = Inr fs'"
proof (induction qs arbitrary: fs)
  case Nil
  then show ?case by simp
next
  case (Cons a qs)
  show ?case
  proof (cases "stat fs a")
    case None
    then have ne: "a \<noteq> []" by (auto simp: stat_def)
    have "\<forall>q \<in> set qs. \<forall>c. stat (AList.update a Dir fs) q \<noteq> Some (File c)"
      using Cons.prems ne by (simp add: stat_update)
    then obtain fs' where "mkdirs (AList.update a Dir fs) qs = Inr fs'"
      using Cons.IH by blast
    then show ?thesis using None by simp
  next
    case (Some e)
    then have e: "e = Dir" using Cons.prems by (cases e) auto
    have "\<forall>q \<in> set qs. \<forall>c. stat fs q \<noteq> Some (File c)" using Cons.prems by simp
    then obtain fs' where "mkdirs fs qs = Inr fs'" using Cons.IH by blast
    then show ?thesis using Some e by simp
  qed
qed


subsection \<open>The loop over the sections\<close>

lemma sectionFile_parent [simp]:
  "sectionFile folder n \<noteq> []" "butlast (sectionFile folder n) = folder"
  by (simp_all add: sectionFile_def)

lemma sectionText_Some:
  "sectionText f n = Some t \<longleftrightarrow> getProp f n = Some (JString t) \<and> t \<noteq> []"
  by (auto simp: sectionText_def split: option.splits json.splits)

lemma writeSections_Dir:
  "writeSections folder f names fs = (r, fs') \<Longrightarrow> stat fs q = Some Dir \<Longrightarrow> stat fs' q = Some Dir"
proof (induction names arbitrary: fs)
  case Nil
  then show ?case by simp
next
  case (Cons n names)
  then show ?case
    by (auto split: option.splits if_splits sum.splits dest: writeFileSync_Dir)
qed


lemma writeSections_other:
  "writeSections folder f names fs = (r, fs') \<Longrightarrow>
   \<forall>n \<in> set names. truthyOpt (getProp f n) \<longrightarrow> q \<noteq> sectionFile folder n \<Longrightarrow>
   stat fs' q = stat fs q"
proof (induction names arbitrary: fs)
  case Nil
  then show ?case by simp
next
  case (Cons n names)
  show ?case
  proof (cases "truthyOpt (getProp f n)")
    case False
    then have "writeSections folder f names fs = (r, fs')"
      using Cons.prems(1) by (auto split: option.splits)
    then show ?thesis using Cons.IH Cons.prems(2) by simp
  next
    case True
    then obtain v where v: "getProp f n = Some v" "truthy v" by (cases "getProp f n") auto
    have q: "q \<noteq> sectionFile folder n" using Cons.prems(2) True by simp
    show ?thesis
    proof (cases "writeFileSync fs (sectionFile folder n) v")
      case (Inl e)
      then show ?thesis using Cons.prems(1) v by simp
    next
      case (Inr fs1)
      then have "writeSections folder f names fs1 = (r, fs')" using Cons.prems(1) v by simp
      then have "stat fs' q = stat fs1 q" using Cons.IH Cons.prems(2) by simp
      then show ?thesis using writeFileSync_stat[OF Inr q] by simp
    qed
  qed
qed

lemma writeSections_ok:
  assumes "stat fs folder = Some Dir"
    and "\<forall>n \<in> set names. \<forall>v. getProp f n = Some v \<longrightarrow> truthy v \<longrightarrow> (\<exists>t. v = JString t)"
    and "\<forall>n \<in> set names. truthyOpt (getProp f n) \<longrightarrow> stat fs (sectionFile folder n) \<noteq> Some Dir"
  shows "\<exists>fs'. writeSections folder f names fs = (None, fs')"
  using assms
proof (induction names arbitrary: fs)
  case Nil
  then show ?case by simp
next
  case (Cons n names)
  show ?case
  proof (cases "truthyOpt (getProp f n)")
    case False
    then have "writeSections folder f (n # names) fs = writeSections folder f names fs"
      by (auto split: option.splits)
    then show ?thesis using Cons.IH[of fs] Cons.prems by simp
  next
    case True
    then obtain v where v: "getProp f n = Some v" "truthy v" by (cases "getProp f n") auto
    then obtain t where t: "v = JString t" using Cons.prems(2) by auto
    let ?fs1 = "AList.update (sectionFile folder n) (File t) fs"
    have w: "writeFileSync fs (sectionFile folder n) v = Inr ?fs1"
      unfolding t using Cons.prems(1,3) True by (intro writeFileSync_ok) simp_all
    have d: "stat ?fs1 folder = Some Dir"
      using writeFileSync_Dir[OF w Cons.prems(1)] .
    have free: "\<forall>m \<in> set names. truthyOpt (getProp f m) \<longrightarrow>
                    stat ?fs1 (sectionFile folder m) \<noteq> Some Dir"
      using Cons.prems(3) by (simp add: stat_update)
    have "\<exists>fs'. writeSections folder f names ?fs1 = (None, fs')"
      using d Cons.prems(2) free by (intro Cons.IH) simp_all
    then show ?thesis using v w by simp
  qed
qed

lemma writeSections_written:
  assumes "writeSections folder f names fs = (None, fs')"
    and "n \<in> set names" and "sectionText f n = Some t"
    and "inj_on toLowerCase (set names)"
  shows "stat fs' (sectionFile folder n) = Some (File t)"
  using assms
proof (induction names arbitrary: fs)
  case Nil
  then show ?case by simp
next
  case (Cons m names)
  have inj: "inj_on toLowerCase (set names)"
    using Cons.prems(4) by (simp add: inj_on_def)
  have g: "getProp f n = Some (JString t)" "t \<noteq> []"
    using Cons.prems(3) by (simp_all add: sectionText_Some)
  show ?case
  proof (cases "n \<in> set names")
    case True
    then show ?thesis
      using Cons.prems(1,3) inj Cons.IH
      by (auto split: option.splits if_splits sum.splits)
  next
    case False
    then have mn: "m = n" using Cons.prems(2) by simp
    obtain fs1 where w: "writeFileSync fs (sectionFile folder n) (JString t) = Inr fs1"
      and rest: "writeSections folder f names fs1 = (None, fs')"
      using Cons.prems(1) g mn by (auto split: sum.splits)
    have "fs1 = AList.update (sectionFile folder n) (File t) fs"
      using writeFileSync_Inr[OF w] by auto
    then have s1: "stat fs1 (sectionFile folder n) = Some (File t)" by (simp add: stat_update)
    have "\<forall>k \<in> set names. truthyOpt (getProp f k) \<longrightarrow> sectionFile folder n \<noteq> sectionFile folder k"
    proof (intro ballI impI)
      fix k assume k: "k \<in> set names"
      then have "k \<noteq> n" using False by auto
      then have "toLowerCase k \<noteq> toLowerCase n"
        using Cons.prems(4) k mn by (auto simp: inj_on_def)
      then show "sectionFile folder n \<noteq> sectionFile folder k"
        by (auto simp: sectionFile_def)
    qed
    then have "stat fs' (sectionFile folder n) = stat fs1 (sectionFile folder n)"
      using writeSections_other[OF rest] by blast
    then show ?thesis using s1 by simp
  qed
qed

lemma lower_distinct: "distinct (map toLowerCase fileOrder)"
  by code_simp

lemma lower_inj: "inj_on toLowerCase (set fileOrder)"
  using lower_distinct by (simp add: distinct_map)

subsection \<open>Version names and plan paths\<close>

lemma digit_table:
  "\<forall>k \<in> set [0..<10]. isDigit (''0123456789'' ! k) \<and> digitValue (''0123456789'' ! k) = k"
  by code_simp

lemma digit_nth: "k < 10 \<Longrightarrow> isDigit (''0123456789'' ! k)"
  using digit_table by simp


lemma showNat_digits: "allDigits (showNat n)"
proof (induction n rule: showNat.induct)
  case (1 n)
  show ?case
  proof (cases "n < 10")
    case True
    then show ?thesis by (simp add: showNat.simps[of n] allDigits_def digit_nth)
  next
    case False
    then have "allDigits (showNat (n div 10))" using 1 by simp
    moreover have "isDigit (''0123456789'' ! (n mod 10))" by (rule digit_nth) simp
    ultimately show ?thesis using False by (simp add: showNat.simps[of n] allDigits_def)
  qed
qed




lemma md_not_version: "toLowerCase n @ ''.md'' \<noteq> ''v'' @ showNat k"
proof
  assume eq: "toLowerCase n @ ''.md'' = ''v'' @ showNat k"
  have ne: "showNat k \<noteq> []" using showNat_digits[of k] by (simp add: allDigits_def)
  have "last (toLowerCase n @ ''.md'') = CHR ''d''" by simp
  moreover have "last (''v'' @ showNat k) = last (showNat k)" using ne by simp
  moreover have "isDigit (last (showNat k))"
    using showNat_digits[of k] ne last_in_set[OF ne] by (auto simp: allDigits_def list_all_iff)
  moreover have "\<not> isDigit (CHR ''d'')" by (simp add: isDigit_def)
  ultimately show False using eq by metis
qed

lemma sectionFile_root_not_prefix:
  "\<not> prefix (sectionFile (getPlanFolderPath cfg pp) n) (getVersionedPlanFolderPath cfg pp v)"
proof
  assume "prefix (sectionFile (getPlanFolderPath cfg pp) n) (getVersionedPlanFolderPath cfg pp v)"
  then have "prefix (getPlanFolderPath cfg pp @ [toLowerCase n @ ''.md''])
                    (getPlanFolderPath cfg pp @ [''v'' @ showNat v])"
    by (simp add: sectionFile_def getVersionedPlanFolderPath_def)
  then have "prefix [toLowerCase n @ ''.md''] [''v'' @ showNat v]" by simp
  then have "toLowerCase n @ ''.md'' = ''v'' @ showNat v" by simp
  then show False using md_not_version by blast
qed

lemma sectionFile_vf_not_prefix:
  "\<not> prefix (sectionFile folder n) folder"
  by (auto simp: sectionFile_def prefix_def)

lemma sectionFile_cross:
  "sectionFile (getVersionedPlanFolderPath cfg pp v) n \<noteq> sectionFile (getPlanFolderPath cfg pp) m"
  by (simp add: sectionFile_def getVersionedPlanFolderPath_def)

lemma sectionFile_inj:
  "n \<in> set fileOrder \<Longrightarrow> m \<in> set fileOrder \<Longrightarrow>
   sectionFile folder n = sectionFile folder m \<Longrightarrow> n = m"
  using lower_inj by (auto simp: sectionFile_def inj_on_def)

lemma wf_prefix_exists:
  "wf_fs fs \<Longrightarrow> stat fs p \<noteq> None \<Longrightarrow> prefix q p \<Longrightarrow> stat fs q \<noteq> None"
proof (induction p rule: rev_induct)
  case Nil
  then show ?case by simp
next
  case (snoc x xs)
  show ?case
  proof (cases "q = xs @ [x]")
    case True
    then show ?thesis using snoc.prems by simp
  next
    case False
    then have "prefix q xs" using snoc.prems(3) by (auto simp: prefix_snoc)
    moreover have "stat fs xs = Some Dir" using snoc.prems(1,2) wf_parent by blast
    ultimately show ?thesis using snoc.IH snoc.prems(1) by simp
  qed
qed

lemma writePlanFiles_cases:
  assumes "writePlanFiles cfg fs pp f v = (r, fs')"
  shows "(\<exists>e. \<not> existsSync fs (getVersionedPlanFolderPath cfg pp v) \<and>
              mkdirSync fs (getVersionedPlanFolderPath cfg pp v) = Inl e \<and> r = Some e \<and> fs' = fs) \<or>
         (\<exists>fs1. prepared fs (getVersionedPlanFolderPath cfg pp v) fs1 \<and>
            ((\<exists>e. writeSections (getVersionedPlanFolderPath cfg pp v) f fileOrder fs1 = (Some e, fs') \<and>
                  r = Some e) \<or>
             (\<exists>fs2. writeSections (getVersionedPlanFolderPath cfg pp v) f fileOrder fs1 = (None, fs2) \<and>
                  writeSections (getPlanFolderPath cfg pp) f fileOrder fs2 = (r, fs'))))"
  using assms
  by (auto simp: writePlanFiles_def prepared_def Let_def
      split: sum.splits prod.splits option.splits if_splits)

lemma prepared_stat:
  assumes "prepared fs vf fs1"
  shows "stat fs1 q = (if \<not> existsSync fs vf \<and> prefix q vf \<and> stat fs q = None then Some Dir
                       else stat fs q)"
  using assms mkdirs_stat[of fs "prefixes vf" fs1 q]
  by (auto simp: prepared_def mkdirSync_def)





subsection \<open>\<^verbatim>\<open>writePlanFiles\<close> as a whole\<close>

lemma sectionText_truthy:
  assumes "\<forall>v. getProp f n = Some v \<longrightarrow> truthy v \<longrightarrow> (\<exists>t. v = JString t)"
  shows "truthyOpt (getProp f n) \<longleftrightarrow> sectionText f n \<noteq> None"
  using assms
  by (cases "getProp f n") (auto simp: sectionText_def split: json.splits)

lemma writePlanFiles_ok:
  fixes cfg pp v
  defines "vf \<equiv> getVersionedPlanFolderPath cfg pp v"
    and "root \<equiv> getPlanFolderPath cfg pp"
  assumes wf: "wf_fs fs"
    and nofile: "\<forall>q \<in> set (prefixes vf). \<forall>c. stat fs q \<noteq> Some (File c)"
    and str: "\<forall>n \<in> set fileOrder. \<forall>x. getProp f n = Some x \<longrightarrow> truthy x \<longrightarrow> (\<exists>t. x = JString t)"
    and free: "\<forall>n \<in> set fileOrder. truthyOpt (getProp f n) \<longrightarrow>
                 stat fs (sectionFile vf n) \<noteq> Some Dir \<and> stat fs (sectionFile root n) \<noteq> Some Dir"
  shows "\<exists>fs'. writePlanFiles cfg fs pp f v = (None, fs') \<and>
           (\<forall>n \<in> set fileOrder. \<forall>t. sectionText f n = Some t \<longrightarrow>
               stat fs' (sectionFile vf n) = Some (File t) \<and>
               stat fs' (sectionFile root n) = Some (File t)) \<and>
           (\<forall>q. (\<forall>n \<in> set fileOrder. sectionText f n \<noteq> None \<longrightarrow>
                     q \<noteq> sectionFile vf n \<and> q \<noteq> sectionFile root n) \<longrightarrow>
                stat fs' q = (if prefix q vf \<and> stat fs q = None then Some Dir else stat fs q))"
proof -
  have vfroot: "vf = root @ [''v'' @ showNat v]"
    by (simp add: vf_def root_def getVersionedPlanFolderPath_def)
  \<comment> \<open>the versioned folder is there after the first step\<close>
  obtain fs1 where prep: "prepared fs vf fs1"
  proof (cases "existsSync fs vf")
    case True
    then have "prepared fs vf fs" by (simp add: prepared_def)
    then show ?thesis by (rule that)
  next
    case False
    obtain fs1 where "mkdirs fs (prefixes vf) = Inr fs1" using mkdirs_ok[OF nofile] by blast
    then have "prepared fs vf fs1" using False by (simp add: prepared_def mkdirSync_def)
    then show ?thesis by (rule that)
  qed
  have stat1: "\<And>q. stat fs1 q = (if prefix q vf \<and> stat fs q = None then Some Dir else stat fs q)"
  proof -
    fix q
    show "stat fs1 q = (if prefix q vf \<and> stat fs q = None then Some Dir else stat fs q)"
    proof (cases "existsSync fs vf")
      case True
      then have "prefix q vf \<Longrightarrow> stat fs q \<noteq> None"
        using wf_prefix_exists[OF wf, of vf q] by (simp add: existsSync_def)
      then show ?thesis using prepared_stat[OF prep, of q] True by auto
    next
      case False
      then show ?thesis using prepared_stat[OF prep, of q] by simp
    qed
  qed
  have dirs1: "\<And>q. prefix q vf \<Longrightarrow> stat fs1 q = Some Dir"
  proof -
    fix q assume p: "prefix q vf"
    show "stat fs1 q = Some Dir"
    proof (cases "stat fs q")
      case None
      then show ?thesis using stat1[of q] p by simp
    next
      case (Some e)
      then have "e = Dir" using nofile p by (cases e) auto
      then show ?thesis using stat1[of q] Some by simp
    qed
  qed
  have vfdir1: "stat fs1 vf = Some Dir" by (rule dirs1) simp
  have rootdir1: "stat fs1 root = Some Dir" by (rule dirs1) (simp add: vfroot)
  have free1v: "\<forall>n \<in> set fileOrder. truthyOpt (getProp f n) \<longrightarrow>
                  stat fs1 (sectionFile vf n) \<noteq> Some Dir"
    using free sectionFile_vf_not_prefix[of vf] by (simp add: stat1)
  have free1r: "\<forall>n \<in> set fileOrder. truthyOpt (getProp f n) \<longrightarrow>
                  stat fs1 (sectionFile root n) \<noteq> Some Dir"
    using free sectionFile_root_not_prefix[of cfg pp _ v] by (simp add: stat1 vf_def root_def)
  \<comment> \<open>the first loop\<close>
  obtain fs2 where w1: "writeSections vf f fileOrder fs1 = (None, fs2)"
    using writeSections_ok[OF vfdir1 str free1v] by blast
  have rootdir2: "stat fs2 root = Some Dir" using writeSections_Dir[OF w1 rootdir1] .
  have cross: "\<And>n m. sectionFile root n \<noteq> sectionFile vf m"
    using sectionFile_cross[of cfg pp v] by (metis vf_def root_def)
  have free2r: "\<forall>n \<in> set fileOrder. truthyOpt (getProp f n) \<longrightarrow>
                  stat fs2 (sectionFile root n) \<noteq> Some Dir"
  proof (intro ballI impI)
    fix n assume n: "n \<in> set fileOrder" and tr: "truthyOpt (getProp f n)"
    have "stat fs2 (sectionFile root n) = stat fs1 (sectionFile root n)"
      using writeSections_other[OF w1, of "sectionFile root n"] cross by blast
    then show "stat fs2 (sectionFile root n) \<noteq> Some Dir" using free1r n tr by simp
  qed
  \<comment> \<open>the second loop\<close>
  obtain fs' where w2: "writeSections root f fileOrder fs2 = (None, fs')"
    using writeSections_ok[OF rootdir2 str free2r] by blast
  have result: "writePlanFiles cfg fs pp f v = (None, fs')"
  proof (cases "existsSync fs vf")
    case True
    then have "fs1 = fs" using prep by (simp add: prepared_def)
    then show ?thesis
      using True w1 w2 by (simp add: writePlanFiles_def Let_def vf_def[symmetric] root_def[symmetric])
  next
    case False
    then have "mkdirSync fs vf = Inr fs1" using prep by (simp add: prepared_def)
    then show ?thesis
      using False w1 w2 by (simp add: writePlanFiles_def Let_def vf_def[symmetric] root_def[symmetric])
  qed
  have written: "\<forall>n \<in> set fileOrder. \<forall>t. sectionText f n = Some t \<longrightarrow>
               stat fs' (sectionFile vf n) = Some (File t) \<and>
               stat fs' (sectionFile root n) = Some (File t)"
  proof (intro ballI allI impI)
    fix n t assume n: "n \<in> set fileOrder" and t: "sectionText f n = Some t"
    have a: "stat fs2 (sectionFile vf n) = Some (File t)"
      using writeSections_written[OF w1 n t lower_inj] .
    have "stat fs' (sectionFile vf n) = stat fs2 (sectionFile vf n)"
      using writeSections_other[OF w2, of "sectionFile vf n"] cross by metis
    then have a': "stat fs' (sectionFile vf n) = Some (File t)" using a by simp
    have b: "stat fs' (sectionFile root n) = Some (File t)"
      using writeSections_written[OF w2 n t lower_inj] .
    show "stat fs' (sectionFile vf n) = Some (File t) \<and> stat fs' (sectionFile root n) = Some (File t)"
      using a' b by simp
  qed
  have other: "\<forall>q. (\<forall>n \<in> set fileOrder. sectionText f n \<noteq> None \<longrightarrow>
                     q \<noteq> sectionFile vf n \<and> q \<noteq> sectionFile root n) \<longrightarrow>
                stat fs' q = (if prefix q vf \<and> stat fs q = None then Some Dir else stat fs q)"
  proof (intro allI impI)
    fix q
    assume q: "\<forall>n \<in> set fileOrder. sectionText f n \<noteq> None \<longrightarrow>
                     q \<noteq> sectionFile vf n \<and> q \<noteq> sectionFile root n"
    have qv: "\<forall>n \<in> set fileOrder. truthyOpt (getProp f n) \<longrightarrow> q \<noteq> sectionFile vf n"
      using q str sectionText_truthy[of f] by blast
    have qr: "\<forall>n \<in> set fileOrder. truthyOpt (getProp f n) \<longrightarrow> q \<noteq> sectionFile root n"
      using q str sectionText_truthy[of f] by blast
    have "stat fs' q = stat fs2 q" using writeSections_other[OF w2 qr] .
    also have "\<dots> = stat fs1 q" using writeSections_other[OF w1 qv] .
    finally show "stat fs' q = (if prefix q vf \<and> stat fs q = None then Some Dir else stat fs q)"
      using stat1[of q] by simp
  qed
  show ?thesis using result written other by blast
qed


lemma lower_PRD: "toLowerCase ''PRD'' = ''prd''" "toLowerCase ''TASKS'' = ''tasks''"
  by code_simp+

lemma PRD_in_order: "''PRD'' \<in> set fileOrder" "''TASKS'' \<in> set fileOrder"
  by (simp_all add: fileOrder_def)

text \<open>
  C7, as the code has it. On a well-formed file system where no prefix of the versioned
  folder is a regular file and none of the four targets is a directory,
  \<^verbatim>\<open>writePlanFiles\<close> with exactly the sections PRD and TASKS, both non-empty,
  returns normally; afterwards \<^verbatim>\<open>v<N>/prd.md\<close>, \<^verbatim>\<open>v<N>/tasks.md\<close> and the root
  \<^verbatim>\<open>prd.md\<close>, \<^verbatim>\<open>tasks.md\<close> hold the supplied markdown unchanged, and every other
  path is as before, except for the directories that \<^verbatim>\<open>mkdirSync\<close> had to create.
\<close>

theorem write_PRD_TASKS:
  fixes cfg pp N
  defines "vf \<equiv> getVersionedPlanFolderPath cfg pp N"
    and "root \<equiv> getPlanFolderPath cfg pp"
  assumes wf: "wf_fs fs"
    and nofile: "\<forall>q \<in> set (prefixes vf). \<forall>c. stat fs q \<noteq> Some (File c)"
    and free: "stat fs (vf @ [''prd.md'']) \<noteq> Some Dir" "stat fs (vf @ [''tasks.md'']) \<noteq> Some Dir"
              "stat fs (root @ [''prd.md'']) \<noteq> Some Dir" "stat fs (root @ [''tasks.md'']) \<noteq> Some Dir"
    and prd: "getProp f ''PRD'' = Some (JString prd)" "prd \<noteq> []"
    and tasks: "getProp f ''TASKS'' = Some (JString tasks)" "tasks \<noteq> []"
    and others: "\<forall>n \<in> set fileOrder. n \<noteq> ''PRD'' \<longrightarrow> n \<noteq> ''TASKS'' \<longrightarrow> getProp f n = None"
  shows "\<exists>fs'. writePlanFiles cfg fs pp f N = (None, fs') \<and>
           stat fs' (vf @ [''prd.md'']) = Some (File prd) \<and>
           stat fs' (vf @ [''tasks.md'']) = Some (File tasks) \<and>
           stat fs' (root @ [''prd.md'']) = Some (File prd) \<and>
           stat fs' (root @ [''tasks.md'']) = Some (File tasks) \<and>
           (\<forall>q. q \<noteq> vf @ [''prd.md''] \<longrightarrow> q \<noteq> vf @ [''tasks.md''] \<longrightarrow>
                q \<noteq> root @ [''prd.md''] \<longrightarrow> q \<noteq> root @ [''tasks.md''] \<longrightarrow>
                stat fs' q = (if prefix q vf \<and> stat fs q = None then Some Dir else stat fs q))"
proof -
  have sf: "\<And>d. sectionFile d ''PRD'' = d @ [''prd.md'']" "\<And>d. sectionFile d ''TASKS'' = d @ [''tasks.md'']"
    by (simp_all add: sectionFile_def lower_PRD)
  have present: "\<And>n. n \<in> set fileOrder \<Longrightarrow> truthyOpt (getProp f n) \<Longrightarrow> n = ''PRD'' \<or> n = ''TASKS''"
    using others by fastforce
  have str: "\<forall>n \<in> set fileOrder. \<forall>x. getProp f n = Some x \<longrightarrow> truthy x \<longrightarrow> (\<exists>t. x = JString t)"
    using prd tasks others by (metis option.distinct(1) option.inject)
  have free': "\<forall>n \<in> set fileOrder. truthyOpt (getProp f n) \<longrightarrow>
                 stat fs (sectionFile vf n) \<noteq> Some Dir \<and> stat fs (sectionFile root n) \<noteq> Some Dir"
    using present free sf by metis
  have tP: "sectionText f ''PRD'' = Some prd" using prd by (simp add: sectionText_Some)
  have tT: "sectionText f ''TASKS'' = Some tasks" using tasks by (simp add: sectionText_Some)
  have only: "\<And>n. n \<in> set fileOrder \<Longrightarrow> sectionText f n \<noteq> None \<Longrightarrow> n = ''PRD'' \<or> n = ''TASKS''"
    using others by (fastforce simp: sectionText_def)
  obtain fs' where r: "writePlanFiles cfg fs pp f N = (None, fs')"
    and written: "\<forall>n \<in> set fileOrder. \<forall>t. sectionText f n = Some t \<longrightarrow>
               stat fs' (sectionFile vf n) = Some (File t) \<and>
               stat fs' (sectionFile root n) = Some (File t)"
    and other: "\<forall>q. (\<forall>n \<in> set fileOrder. sectionText f n \<noteq> None \<longrightarrow>
                     q \<noteq> sectionFile vf n \<and> q \<noteq> sectionFile root n) \<longrightarrow>
                stat fs' q = (if prefix q vf \<and> stat fs q = None then Some Dir else stat fs q)"
    using writePlanFiles_ok[of fs cfg pp N f, folded vf_def root_def, OF wf nofile str free']
    by blast
  have w1: "stat fs' (vf @ [''prd.md'']) = Some (File prd) \<and> stat fs' (root @ [''prd.md'']) = Some (File prd)"
    using written PRD_in_order(1) tP sf(1) by metis
  have w2: "stat fs' (vf @ [''tasks.md'']) = Some (File tasks) \<and> stat fs' (root @ [''tasks.md'']) = Some (File tasks)"
    using written PRD_in_order(2) tT sf(2) by metis
  have rest: "\<forall>q. q \<noteq> vf @ [''prd.md''] \<longrightarrow> q \<noteq> vf @ [''tasks.md''] \<longrightarrow>
                q \<noteq> root @ [''prd.md''] \<longrightarrow> q \<noteq> root @ [''tasks.md''] \<longrightarrow>
                stat fs' q = (if prefix q vf \<and> stat fs q = None then Some Dir else stat fs q)"
  proof (intro allI impI)
    fix q
    assume q: "q \<noteq> vf @ [''prd.md'']" "q \<noteq> vf @ [''tasks.md'']"
              "q \<noteq> root @ [''prd.md'']" "q \<noteq> root @ [''tasks.md'']"
    have "\<forall>n \<in> set fileOrder. sectionText f n \<noteq> None \<longrightarrow>
                     q \<noteq> sectionFile vf n \<and> q \<noteq> sectionFile root n"
      using only q sf by metis
    then show "stat fs' q = (if prefix q vf \<and> stat fs q = None then Some Dir else stat fs q)"
      using other by blast
  qed
  show ?thesis using r w1 w2 rest by blast
qed

theorem write_PRD_TASKS_witness:
  "\<exists>fs'. writePlanFiles \<lparr>geminiApiKey = ''k'', planFolderName = ''plan''\<rparr> [] [''proj'']
            (JObject [(''PRD'', JString ''# PRD''), (''TASKS'', JString ''- task'')]) 3 = (None, fs') \<and>
     stat fs' (getVersionedPlanFolderPath \<lparr>geminiApiKey = ''k'', planFolderName = ''plan''\<rparr> [''proj''] 3
               @ [''prd.md'']) = Some (File ''# PRD'') \<and>
     stat fs' (getVersionedPlanFolderPath \<lparr>geminiApiKey = ''k'', planFolderName = ''plan''\<rparr> [''proj''] 3
               @ [''tasks.md'']) = Some (File ''- task'') \<and>
     stat fs' (getPlanFolderPath \<lparr>geminiApiKey = ''k'', planFolderName = ''plan''\<rparr> [''proj'']
               @ [''prd.md'']) = Some (File ''# PRD'') \<and>
     stat fs' (getPlanFolderPath \<lparr>geminiApiKey = ''k'', planFolderName = ''plan''\<rparr> [''proj'']
               @ [''tasks.md'']) = Some (File ''- task'')"
proof -
  let ?cfg = "\<lparr>geminiApiKey = ''k'', planFolderName = ''plan''\<rparr>"
  let ?f = "JObject [(''PRD'', JString ''# PRD''), (''TASKS'', JString ''- task'')]"
  have h1: "wf_fs []" by (simp add: wf_fs_def)
  have h2: "\<forall>q \<in> set (prefixes (getVersionedPlanFolderPath ?cfg [''proj''] 3)).
              \<forall>c. stat [] q \<noteq> Some (File c)"
    by (simp add: stat_def)
  have h3: "stat [] (getVersionedPlanFolderPath ?cfg [''proj''] 3 @ [''prd.md'']) \<noteq> Some Dir"
    by (simp add: stat_def)
  have h4: "stat [] (getVersionedPlanFolderPath ?cfg [''proj''] 3 @ [''tasks.md'']) \<noteq> Some Dir"
    by (simp add: stat_def)
  have h5: "stat [] (getPlanFolderPath ?cfg [''proj''] @ [''prd.md'']) \<noteq> Some Dir"
    by (simp add: stat_def)
  have h6: "stat [] (getPlanFolderPath ?cfg [''proj''] @ [''tasks.md'']) \<noteq> Some Dir"
    by (simp add: stat_def)
  have h7: "getProp ?f ''PRD'' = Some (JString ''# PRD'')" by code_simp
  have h8: "''# PRD'' \<noteq> []" by simp
  have h9: "getProp ?f ''TASKS'' = Some (JString ''- task'')" by code_simp
  have h10: "''- task'' \<noteq> []" by simp
  have h11: "\<forall>n \<in> set fileOrder. n \<noteq> ''PRD'' \<longrightarrow> n \<noteq> ''TASKS'' \<longrightarrow> getProp ?f n = None"
    by code_simp
  from write_PRD_TASKS [OF h1 h2 h3 h4 h5 h6 h7 h8 h9 h10 h11]
  obtain fs' where
    "writePlanFiles ?cfg [] [''proj''] ?f 3 = (None, fs')"
    "stat fs' (getVersionedPlanFolderPath ?cfg [''proj''] 3 @ [''prd.md'']) = Some (File ''# PRD'')"
    "stat fs' (getVersionedPlanFolderPath ?cfg [''proj''] 3 @ [''tasks.md'']) = Some (File ''- task'')"
    "stat fs' (getPlanFolderPath ?cfg [''proj''] @ [''prd.md'']) = Some (File ''# PRD'')"
    "stat fs' (getPlanFolderPath ?cfg [''proj''] @ [''tasks.md'']) = Some (File ''- task'')"
    by (elim exE conjE)
  then show ?thesis by (intro exI conjI)
qed

text \<open>
  C7 as the specification words it is refuted: a section whose markdown is the empty
  string is falsy, and no file is written for it. And where a target is taken by a
  directory the write throws midway: here the two files of \<^verbatim>\<open>v1\<close> are written
  and neither file of the plan root.
\<close>

theorem write_PRD_TASKS_counterexample:
  "writePlanFiles \<lparr>geminiApiKey = ''k'', planFolderName = ''plan''\<rparr> [] [''proj'']
     (JObject [(''PRD'', JString ''''), (''TASKS'', JString ''t'')]) 1 =
     (None, [([''proj''], Dir), ([''proj'', ''plan''], Dir), ([''proj'', ''plan'', ''v1''], Dir),
             ([''proj'', ''plan'', ''v1'', ''tasks.md''], File ''t''),
             ([''proj'', ''plan'', ''tasks.md''], File ''t'')]) \<and>
   stat [([''proj''], Dir), ([''proj'', ''plan''], Dir), ([''proj'', ''plan'', ''v1''], Dir),
         ([''proj'', ''plan'', ''v1'', ''tasks.md''], File ''t''),
         ([''proj'', ''plan'', ''tasks.md''], File ''t'')]
        [''proj'', ''plan'', ''v1'', ''prd.md''] = None \<and>
   writePlanFiles \<lparr>geminiApiKey = ''k'', planFolderName = ''plan''\<rparr>
     [([''proj''], Dir), ([''proj'', ''plan''], Dir), ([''proj'', ''plan'', ''prd.md''], Dir)] [''proj'']
     (JObject [(''PRD'', JString ''x''), (''TASKS'', JString ''t'')]) 1 =
     (Some EISDIR,
      [([''proj''], Dir), ([''proj'', ''plan''], Dir), ([''proj'', ''plan'', ''prd.md''], Dir),
       ([''proj'', ''plan'', ''v1''], Dir),
       ([''proj'', ''plan'', ''v1'', ''prd.md''], File ''x''),
       ([''proj'', ''plan'', ''v1'', ''tasks.md''], File ''t'')])"
  by code_simp

section \<open>Properties of the chat turn\<close>

subsection \<open>Sections that are absent\<close>

lemma writeSections_skip:
  "\<not> truthyOpt (getProp f n) \<Longrightarrow>
   writeSections folder f names fs = writeSections folder f (removeAll n names) fs"
proof (induction names arbitrary: fs)
  case Nil
  then show ?case by simp
next
  case (Cons m names)
  then show ?case
    by (cases "getProp f m") (auto split: sum.splits)
qed

lemma writePlanFiles_untouched:
  assumes w: "writePlanFiles cfg fs pp f v = (r, fs')"
    and np: "\<not> prefix q (getVersionedPlanFolderPath cfg pp v)"
    and q: "\<forall>m \<in> set fileOrder. truthyOpt (getProp f m) \<longrightarrow>
              q \<noteq> sectionFile (getVersionedPlanFolderPath cfg pp v) m \<and>
              q \<noteq> sectionFile (getPlanFolderPath cfg pp) m"
  shows "stat fs' q = stat fs q"
proof -
  let ?vf = "getVersionedPlanFolderPath cfg pp v"
  let ?root = "getPlanFolderPath cfg pp"
  have qv: "\<forall>m \<in> set fileOrder. truthyOpt (getProp f m) \<longrightarrow> q \<noteq> sectionFile ?vf m"
    using q by blast
  have qr: "\<forall>m \<in> set fileOrder. truthyOpt (getProp f m) \<longrightarrow> q \<noteq> sectionFile ?root m"
    using q by blast
  from writePlanFiles_cases[OF w] show ?thesis
  proof (elim disjE exE conjE)
    fix e assume "fs' = fs"
    then show ?thesis by simp
  next
    fix fs1 e
    assume p: "prepared fs ?vf fs1" and w1: "writeSections ?vf f fileOrder fs1 = (Some e, fs')"
    have "stat fs' q = stat fs1 q" using writeSections_other[OF w1 qv] .
    then show ?thesis using prepared_stat[OF p, of q] np by simp
  next
    fix fs1 fs2
    assume p: "prepared fs ?vf fs1" and w1: "writeSections ?vf f fileOrder fs1 = (None, fs2)"
      and w2: "writeSections ?root f fileOrder fs2 = (r, fs')"
    have "stat fs' q = stat fs2 q" using writeSections_other[OF w2 qr] .
    also have "\<dots> = stat fs1 q" using writeSections_other[OF w1 qv] .
    finally show ?thesis using prepared_stat[OF p, of q] np by simp
  qed
qed

lemma writePlanFiles_absent:
  assumes n: "n \<in> set fileOrder" and absent: "\<not> truthyOpt (getProp f n)"
  shows "stat (snd (writePlanFiles cfg fs pp f v)) (sectionFile (getVersionedPlanFolderPath cfg pp v) n)
           = stat fs (sectionFile (getVersionedPlanFolderPath cfg pp v) n) \<and>
         stat (snd (writePlanFiles cfg fs pp f v)) (sectionFile (getPlanFolderPath cfg pp) n)
           = stat fs (sectionFile (getPlanFolderPath cfg pp) n)"
proof -
  let ?vf = "getVersionedPlanFolderPath cfg pp v"
  let ?root = "getPlanFolderPath cfg pp"
  obtain r fs' where w: "writePlanFiles cfg fs pp f v = (r, fs')"
    by (cases "writePlanFiles cfg fs pp f v")
  have a: "\<forall>m \<in> set fileOrder. truthyOpt (getProp f m) \<longrightarrow>
              sectionFile ?vf n \<noteq> sectionFile ?vf m \<and> sectionFile ?vf n \<noteq> sectionFile ?root m"
    using n absent sectionFile_inj[of n _ ?vf] sectionFile_cross[of cfg pp v n] by blast
  have b: "\<forall>m \<in> set fileOrder. truthyOpt (getProp f m) \<longrightarrow>
              sectionFile ?root n \<noteq> sectionFile ?vf m \<and> sectionFile ?root n \<noteq> sectionFile ?root m"
    using n absent sectionFile_inj[of n _ ?root] sectionFile_cross[of cfg pp v _ n] by metis
  have "stat fs' (sectionFile ?vf n) = stat fs (sectionFile ?vf n)"
    using writePlanFiles_untouched[OF w sectionFile_vf_not_prefix a] .
  moreover have "stat fs' (sectionFile ?root n) = stat fs (sectionFile ?root n)"
    using writePlanFiles_untouched[OF w sectionFile_root_not_prefix b] .
  ultimately show ?thesis using w by simp
qed

lemma afterResponse_no_plan:
  "planFiles (extractPlanJson response) = None \<Longrightarrow>
   files (afterResponse cfg now a s response) = files a"
  by (simp add: afterResponse_def split: sum.splits prod.splits)

lemma planFiles_Some:
  "planFiles (Some pj) = Some f \<Longrightarrow> getProp pj ''files'' = Some f \<and> truthy f"
  by (auto simp: planFiles_def split: if_splits option.splits)

text \<open>
  C3, as the code has it. When \<^verbatim>\<open>extractPlanJson\<close> returns a value, that value
  need not have a \<^verbatim>\<open>files\<close> member: \<^verbatim>\<open>main\<close> tests
  \<^verbatim>\<open>planJson && planJson.files\<close>, and without a truthy \<^verbatim>\<open>files\<close> the turn
  writes nothing. With one, a section name for which \<^verbatim>\<open>files\<close> has no truthy
  value is omitted and is no error: the loop runs as if the name were not in the list, and
  \<^verbatim>\<open>writePlanFiles\<close>, whatever its outcome, leaves the files of that section as they
  were, in the versioned folder and in the plan root.
\<close>

theorem absent_sections_omitted:
  assumes "extractPlanJson response = Some pj"
  shows "(planFiles (Some pj) = None \<longrightarrow>
            files (afterResponse cfg now a s response) = files a) \<and>
         (\<forall>f. planFiles (Some pj) = Some f \<longrightarrow>
            getProp pj ''files'' = Some f \<and> truthy f \<and>
            (\<forall>n \<in> set fileOrder. \<not> truthyOpt (getProp f n) \<longrightarrow>
               (\<forall>folder names fs.
                  writeSections folder f names fs = writeSections folder f (removeAll n names) fs) \<and>
               (\<forall>fs pp v.
                  stat (snd (writePlanFiles cfg fs pp f v))
                       (sectionFile (getVersionedPlanFolderPath cfg pp v) n)
                    = stat fs (sectionFile (getVersionedPlanFolderPath cfg pp v) n) \<and>
                  stat (snd (writePlanFiles cfg fs pp f v))
                       (sectionFile (getPlanFolderPath cfg pp) n)
                    = stat fs (sectionFile (getPlanFolderPath cfg pp) n))))"
proof (intro conjI impI allI ballI)
  assume "planFiles (Some pj) = None"
  then show "files (afterResponse cfg now a s response) = files a"
    using assms afterResponse_no_plan by simp
next
  fix f assume "planFiles (Some pj) = Some f"
  then show "getProp pj ''files'' = Some f" using planFiles_Some by blast
next
  fix f assume "planFiles (Some pj) = Some f"
  then show "truthy f" using planFiles_Some by blast
next
  fix f n folder names fs
  assume "\<not> truthyOpt (getProp f n)"
  then show "writeSections folder f names fs = writeSections folder f (removeAll n names) fs"
    by (rule writeSections_skip)
next
  fix f n fs pp v
  assume n: "n \<in> set fileOrder" and absent: "\<not> truthyOpt (getProp f n)"
  show "stat (snd (writePlanFiles cfg fs pp f v))
                       (sectionFile (getVersionedPlanFolderPath cfg pp v) n)
                    = stat fs (sectionFile (getVersionedPlanFolderPath cfg pp v) n)"
    using writePlanFiles_absent[OF n absent] by blast
next
  fix f n fs pp v
  assume n: "n \<in> set fileOrder" and absent: "\<not> truthyOpt (getProp f n)"
  show "stat (snd (writePlanFiles cfg fs pp f v))
                       (sectionFile (getPlanFolderPath cfg pp) n)
                    = stat fs (sectionFile (getPlanFolderPath cfg pp) n)"
    using writePlanFiles_absent[OF n absent] by blast
qed

theorem absent_sections_omitted_witness:
  \<open>extractPlanJson (''```md'' @ [NL] @ ''{"files":{"PRD":"x"}}'' @ [NL] @ ''```'') =
     Some (JObject [(''files'', JObject [(''PRD'', JString ''x'')])]) \<and>
   getProp (JObject [(''files'', JObject [(''PRD'', JString ''x'')])]) ''files'' =
     Some (JObject [(''PRD'', JString ''x'')]) \<and>
   stat (snd (writePlanFiles \<lparr>geminiApiKey = ''k'', planFolderName = ''plan''\<rparr> [] [''proj'']
                (JObject [(''PRD'', JString ''x'')]) 1))
        (sectionFile (getVersionedPlanFolderPath \<lparr>geminiApiKey = ''k'', planFolderName = ''plan''\<rparr>
                        [''proj''] 1) ''TASKS'')
     = stat [] (sectionFile (getVersionedPlanFolderPath \<lparr>geminiApiKey = ''k'', planFolderName = ''plan''\<rparr>
                        [''proj''] 1) ''TASKS'')\<close>
proof -
  let ?cfg = "\<lparr>geminiApiKey = ''k'', planFolderName = ''plan''\<rparr>"
  let ?r = \<open>''```md'' @ [NL] @ ''{"files":{"PRD":"x"}}'' @ [NL] @ ''```''\<close>
  let ?pj = "JObject [(''files'', JObject [(''PRD'', JString ''x'')])]"
  let ?f = "JObject [(''PRD'', JString ''x'')]"
  let ?a = "startup []"
  let ?s = "\<lparr>session_id = ''s1'', projectName = ''P'', projectPath = [''proj''],
             createdAt = 1, updatedAt = 1, messages = [], planGenerated = False, planVersion = 0\<rparr>"
  have h: "extractPlanJson ?r = Some ?pj" by code_simp
  have p: "planFiles (Some ?pj) = Some ?f" by code_simp
  have n: "''TASKS'' \<in> set fileOrder" by (simp add: fileOrder_def)
  have ab: "\<not> truthyOpt (getProp ?f ''TASKS'')" by code_simp
  note t = absent_sections_omitted [OF h, of ?cfg 1 ?a ?s]
  have t2: "getProp ?pj ''files'' = Some ?f \<and> truthy ?f \<and>
            (\<forall>n \<in> set fileOrder. \<not> truthyOpt (getProp ?f n) \<longrightarrow>
               (\<forall>folder names fs.
                  writeSections folder ?f names fs = writeSections folder ?f (removeAll n names) fs) \<and>
               (\<forall>fs pp v.
                  stat (snd (writePlanFiles ?cfg fs pp ?f v))
                       (sectionFile (getVersionedPlanFolderPath ?cfg pp v) n)
                    = stat fs (sectionFile (getVersionedPlanFolderPath ?cfg pp v) n) \<and>
                  stat (snd (writePlanFiles ?cfg fs pp ?f v))
                       (sectionFile (getPlanFolderPath ?cfg pp) n)
                    = stat fs (sectionFile (getPlanFolderPath ?cfg pp) n)))"
    by (rule mp [OF spec [OF conjunct2 [OF t]] p])
  have g: "getProp ?pj ''files'' = Some ?f" by (rule conjunct1 [OF t2])
  have t3: "\<forall>fs pp v.
                  stat (snd (writePlanFiles ?cfg fs pp ?f v))
                       (sectionFile (getVersionedPlanFolderPath ?cfg pp v) ''TASKS'')
                    = stat fs (sectionFile (getVersionedPlanFolderPath ?cfg pp v) ''TASKS'') \<and>
                  stat (snd (writePlanFiles ?cfg fs pp ?f v))
                       (sectionFile (getPlanFolderPath ?cfg pp) ''TASKS'')
                    = stat fs (sectionFile (getPlanFolderPath ?cfg pp) ''TASKS'')"
    by (rule conjunct2 [OF mp [OF bspec [OF conjunct2 [OF conjunct2 [OF t2]] n] ab]])
  have t4: "stat (snd (writePlanFiles ?cfg [] [''proj''] ?f 1))
                       (sectionFile (getVersionedPlanFolderPath ?cfg [''proj''] 1) ''TASKS'')
                    = stat [] (sectionFile (getVersionedPlanFolderPath ?cfg [''proj''] 1) ''TASKS'')"
    by (rule conjunct1 [OF spec [OF spec [OF spec [OF t3]]]])
  show ?thesis by (intro conjI) (rule h, rule g, rule t4)
qed

text \<open>
  C3 as the specification words it is refuted: a fenced object without \<^verbatim>\<open>files\<close>
  is a successful extraction; and a \<^verbatim>\<open>files\<close> member that passes the test of
  \<^verbatim>\<open>main\<close> need not be a mapping, here it is the number 5.
\<close>

theorem absent_sections_omitted_counterexample:
  \<open>extractPlanJson (''```md'' @ [NL] @ ''{"a":1}'' @ [NL] @ ''```'') =
     Some (JObject [(''a'', JNumber ''1'')]) \<and>
   getProp (JObject [(''a'', JNumber ''1'')]) ''files'' = None \<and>
   extractPlanJson (''```md'' @ [NL] @ ''{"files":5}'' @ [NL] @ ''```'') =
     Some (JObject [(''files'', JNumber ''5'')]) \<and>
   planFiles (Some (JObject [(''files'', JNumber ''5'')])) = Some (JNumber ''5'')\<close>
  by code_simp

subsection \<open>A write that fails\<close>

text \<open>
  C8. The session on file is \<open>s0\<close>; the chat answers with a response that carries a
  plan, the next version is computed, and \<^verbatim>\<open>writePlanFiles\<close> throws, leaving the
  file system \<open>fs'\<close> with whatever it had written. Then the turn ends in the
  \<^verbatim>\<open>catch\<close>: the session in memory and the session on file have the two new
  messages and the \<^verbatim>\<open>planGenerated\<close> and \<^verbatim>\<open>planVersion\<close> that \<open>s0\<close> had.
\<close>

theorem failed_write_keeps_session:
  assumes cur: "current a = Some c"
    and stored: "sessions a (session_id c) = Some (Doc s0)"
    and sid: "session_id s0 = session_id c"
    and chat: "chat (map (\<lambda>m. (role m, content m)) (messages s0 @ [newMessage now User trimmed]))
                 = Inr response"
    and plan: "planFiles (extractPlanJson response) = Some f"
    and ver: "getNextPlanVersion cfg (files a) (projectPath s0) = Inr version"
    and fail: "writePlanFiles cfg (files a) (projectPath s0) f version = (Some e, fs')"
  shows "\<exists>a' s'. chatTurn cfg now chat a trimmed = Inr a' \<and> files a' = fs' \<and>
           current a' = Some s' \<and> sessions a' (session_id c) = Some (Doc s') \<and>
           planGenerated s' = planGenerated s0 \<and> planVersion s' = planVersion s0"
proof -
  let ?s1 = "s0\<lparr>messages := messages s0 @ [newMessage now User trimmed], updatedAt := now\<rparr>"
  let ?st1 = "(sessions a)(session_id c \<mapsto> Doc ?s1)"
  let ?a1 = "a\<lparr>sessions := ?st1, current := Some ?s1\<rparr>"
  let ?s2 = "?s1\<lparr>messages := messages ?s1 @ [newMessage now Assistant response], updatedAt := now\<rparr>"
  let ?st2 = "?st1(session_id c \<mapsto> Doc ?s2)"
  have am1: "addMessage now (sessions a) (session_id c) (newMessage now User trimmed)
               = Inr (Some ?s1, ?st1)"
    using stored sid by (simp add: addMessage_def getSession_def saveSession_def Let_def)
  have am2: "addMessage now ?st1 (session_id ?s1) (newMessage now Assistant response)
               = Inr (Some ?s2, ?st2)"
    using sid by (simp add: addMessage_def getSession_def saveSession_def Let_def)
  have after: "afterResponse cfg now ?a1 ?s1 response = \<lparr>files = fs', sessions = ?st2, current = Some ?s2\<rparr>"
    using am2 plan ver fail by (simp add: afterResponse_def)
  have "chatTurn cfg now chat a trimmed = Inr \<lparr>files = fs', sessions = ?st2, current = Some ?s2\<rparr>"
    using cur am1 chat after by (simp add: chatTurn_def)
  then show ?thesis by simp
qed

theorem failed_write_keeps_session_witness:
  \<open>\<exists>a' s'.
     chatTurn \<lparr>geminiApiKey = ''k'', planFolderName = ''plan''\<rparr> 2
       (\<lambda>history. Inr (''```md'' @ [NL] @ ''{"files":{"PRD":"x"}}'' @ [NL] @ ''```''))
       \<lparr>files = [([''proj''], Dir), ([''proj'', ''plan''], Dir), ([''proj'', ''plan'', ''prd.md''], Dir)],
        sessions = [''s1'' \<mapsto> Doc \<lparr>session_id = ''s1'', projectName = ''P'', projectPath = [''proj''],
             createdAt = 1, updatedAt = 1, messages = [], planGenerated = False, planVersion = 0\<rparr>],
        current = Some \<lparr>session_id = ''s1'', projectName = ''P'', projectPath = [''proj''],
             createdAt = 1, updatedAt = 1, messages = [], planGenerated = False, planVersion = 0\<rparr>\<rparr>
       ''go'' = Inr a' \<and>
     files a' = [([''proj''], Dir), ([''proj'', ''plan''], Dir), ([''proj'', ''plan'', ''prd.md''], Dir),
                 ([''proj'', ''plan'', ''v1''], Dir),
                 ([''proj'', ''plan'', ''v1'', ''prd.md''], File ''x'')] \<and>
     current a' = Some s' \<and>
     sessions a' (session_id \<lparr>session_id = ''s1'', projectName = ''P'', projectPath = [''proj''],
             createdAt = 1, updatedAt = 1, messages = [], planGenerated = False, planVersion = 0\<rparr>)
       = Some (Doc s') \<and>
     planGenerated s' = planGenerated \<lparr>session_id = ''s1'', projectName = ''P'', projectPath = [''proj''],
             createdAt = 1, updatedAt = 1, messages = [], planGenerated = False, planVersion = 0\<rparr> \<and>
     planVersion s' = planVersion \<lparr>session_id = ''s1'', projectName = ''P'', projectPath = [''proj''],
             createdAt = 1, updatedAt = 1, messages = [], planGenerated = False, planVersion = 0\<rparr>\<close>
proof -
  let ?cfg = "\<lparr>geminiApiKey = ''k'', planFolderName = ''plan''\<rparr>"
  let ?r = \<open>''```md'' @ [NL] @ ''{"files":{"PRD":"x"}}'' @ [NL] @ ''```''\<close>
  let ?s0 = "\<lparr>session_id = ''s1'', projectName = ''P'', projectPath = [''proj''],
             createdAt = 1, updatedAt = 1, messages = [], planGenerated = False, planVersion = 0\<rparr>"
  let ?fs = "[([''proj''], Dir), ([''proj'', ''plan''], Dir), ([''proj'', ''plan'', ''prd.md''], Dir)]"
  let ?a = "\<lparr>files = ?fs, sessions = [''s1'' \<mapsto> Doc ?s0], current = Some ?s0\<rparr>"
  let ?f = "JObject [(''PRD'', JString ''x'')]"
  have h1: "current ?a = Some ?s0" by simp
  have h2: "sessions ?a (session_id ?s0) = Some (Doc ?s0)" by simp
  have h3: "session_id ?s0 = session_id ?s0" by simp
  have h4: "(\<lambda>history. Inr ?r)
              (map (\<lambda>m. (role m, content m)) (messages ?s0 @ [newMessage 2 User ''go''])) = Inr ?r"
    by simp
  have h5: "planFiles (extractPlanJson ?r) = Some ?f" by code_simp
  have h6: "getNextPlanVersion ?cfg (files ?a) (projectPath ?s0) = Inr 1" by code_simp
  have h7: "writePlanFiles ?cfg (files ?a) (projectPath ?s0) ?f 1 =
      (Some EISDIR, [([''proj''], Dir), ([''proj'', ''plan''], Dir), ([''proj'', ''plan'', ''prd.md''], Dir),
                 ([''proj'', ''plan'', ''v1''], Dir),
                 ([''proj'', ''plan'', ''v1'', ''prd.md''], File ''x'')])"
    by code_simp
  show ?thesis by (rule failed_write_keeps_session [OF h1 h2 h3 h4 h5 h6 h7])
qed

subsection \<open>The plan of a session is on disk\<close>





lemma planRecorded_saved [simp]:
  "planRecorded cfg fs (s\<lparr>updatedAt := t\<rparr>) = planRecorded cfg fs s"
  "planRecorded cfg fs (s\<lparr>messages := ms\<rparr>) = planRecorded cfg fs s"
  by (simp_all add: planRecorded_def)













end
